theory Spec2Isabelle
  imports Main
begin

section \<open>Table names: \<^verbatim>\<open>Base.__tablename__\<close>\<close>

text \<open>
  Class names are modelled as ASCII strings. \<^verbatim>\<open>str.isupper\<close> on one character and
  \<^verbatim>\<open>str.lower\<close> are modelled on the ASCII letters: a character outside \<open>A..Z\<close> is
  not upper case and is left alone by lower-casing.
\<close>

definition isupper :: "char \<Rightarrow> bool" where
  "isupper c = (65 \<le> (of_char c :: nat) \<and> (of_char c :: nat) \<le> 90)"

definition lower_char :: "char \<Rightarrow> char" where
  "lower_char c = (if isupper c then char_of ((of_char c :: nat) + 32) else c)"

definition lower :: "string \<Rightarrow> string" where
  "lower s = map lower_char s"

definition endswith :: "string \<Rightarrow> string \<Rightarrow> bool" where
  "endswith s suffix = (length suffix \<le> length s \<and> drop (length s - length suffix) s = suffix)"

text \<open>
  The loop \<^verbatim>\<open>for i in self.__name__[1:]\<close>: the first argument is the accumulator
  \<^verbatim>\<open>__name\<close>, the second what is left of the slice.
\<close>

fun tablename_loop :: "string \<Rightarrow> string \<Rightarrow> string" where
  "tablename_loop acc [] = acc"
| "tablename_loop acc (i # rest) =
     tablename_loop ((if isupper i then acc @ ''_'' else acc) @ [i]) rest"

definition tablename :: "string \<Rightarrow> string" where
  "tablename name =
     (let n0 = tablename_loop (take 1 name) (drop 1 name);
          n1 = lower n0;
          n2 = (if endswith n1 ''y'' then butlast n1 @ ''ie'' else n1)
      in n2 @ ''s'')"

text \<open>
  The rule as the specification words it: an underscore before each internal capital
  letter (every capital but one in the first position), the result lower-cased, then
  pluralised: a trailing \<open>y\<close> becomes \<open>ie\<close> followed by \<open>s\<close>, otherwise \<open>s\<close> is
  appended.
\<close>

fun spec_underscores :: "string \<Rightarrow> string" where
  "spec_underscores [] = []"
| "spec_underscores (c # cs) =
     c # concat (map (\<lambda>d. if isupper d then [CHR ''_'', d] else [d]) cs)"

definition spec_pluralize :: "string \<Rightarrow> string" where
  "spec_pluralize w =
     (if w \<noteq> [] \<and> last w = CHR ''y'' then butlast w @ ''ies'' else w @ ''s'')"

definition spec_tablename :: "string \<Rightarrow> string" where
  "spec_tablename name = spec_pluralize (map lower_char (spec_underscores name))"

section \<open>Values, rows, entities and exceptions\<close>

text \<open>
  A row is the dictionary of its columns; the keyword arguments of \<^verbatim>\<open>create\<close> and
  \<^verbatim>\<open>update\<close> are such a dictionary too. A column that is absent reads as NULL, as an
  unset attribute of a mapped object reads as \<^verbatim>\<open>None\<close>.
\<close>

datatype val = NullV | IntV int | StrV string | TimeV int

type_synonym row = "string \<rightharpoonup> val"

definition col :: "row \<Rightarrow> string \<Rightarrow> val" where
  "col r c = (case r c of None \<Rightarrow> NullV | Some v \<Rightarrow> v)"

text \<open>
  The two abstract bases of the source: \<^verbatim>\<open>BaseModel\<close> (the \<open>id\<close> column only) and
  \<^verbatim>\<open>CreatedBaseModel\<close> (also \<open>updated_at\<close> and \<open>created_at\<close>, with their
  \<^verbatim>\<open>default\<close> and \<^verbatim>\<open>onupdate\<close> of \<^verbatim>\<open>datetime.utcnow\<close>). An entity class is its
  name and its base; an entity is an instance: its class and the values of its columns.
\<close>

datatype base = BaseModel | CreatedBaseModel

record cls =
  cname :: string
  base :: base

record entity =
  ecls :: cls
  attrs :: row

fun insert_defaults :: "base \<Rightarrow> int \<Rightarrow> row" where
  "insert_defaults BaseModel t = Map.empty"
| "insert_defaults CreatedBaseModel t =
     [''updated_at'' \<mapsto> TimeV t, ''created_at'' \<mapsto> TimeV t]"

fun update_defaults :: "base \<Rightarrow> int \<Rightarrow> row" where
  "update_defaults BaseModel t = Map.empty"
| "update_defaults CreatedBaseModel t = [''updated_at'' \<mapsto> TimeV t]"

text \<open>
  What an awaited call can raise. \<^verbatim>\<open>CancelledError\<close> derives from
  \<^verbatim>\<open>BaseException\<close> and not from \<^verbatim>\<open>Exception\<close>; every other exception here is an
  \<^verbatim>\<open>Exception\<close>.
\<close>

datatype exn =
    IntegrityError
  | OperationalError
  | ProgrammingError
  | InvalidRequestError
  | ResourceClosedError
  | CancelledError

fun is_Exception :: "exn \<Rightarrow> bool" where
  "is_Exception CancelledError = False"
| "is_Exception e = True"

section \<open>The session behind \<^verbatim>\<open>db\<close>\<close>

text \<open>
  Modelled from the spec: the session library that \<^verbatim>\<open>AsyncDatabaseSession\<close> forwards
  to (\<^verbatim>\<open>__getattr__\<close>) is not part of the repository. The model is the one session of
  the process over one database, as the specification describes it: \<open>stored\<close> is what
  is committed, per table name; \<open>view\<close> is what the session's open transaction sees;
  \<open>objs\<close> are the objects the mixin has constructed, an object being named by its
  index; \<open>seq\<close> is the next identity each table hands out; \<open>now\<close> is the clock;
  \<open>printed\<close> is what \<^verbatim>\<open>print\<close> has written. Every awaited call on the session
  takes the next entry of \<open>faults\<close>: an exception there is raised by that call
  (a lost connection, a constraint the model does not know, a cancellation); without
  an entry the call goes through.
\<close>

datatype life = Transient | Pending | Flushed | Persistent

record obj =
  ent :: entity
  life :: life

record session =
  stored :: "string \<Rightarrow> row list"
  view :: "string \<Rightarrow> row list"
  objs :: "obj list"
  seq :: "string \<Rightarrow> int"
  now :: int
  printed :: "exn list"
  faults :: "exn option list"

definition db_call :: "session \<Rightarrow> exn option \<times> session" where
  "db_call s = (case faults s of [] \<Rightarrow> (None, s) | f # fs \<Rightarrow> (f, s\<lparr>faults := fs\<rparr>))"

text \<open>
  Modelled from the spec: the primary key. \<open>id\<close> is an integer, never NULL, and no two
  rows of a table share it.
\<close>

definition ident :: "row \<Rightarrow> int option" where
  "ident r = (case r ''id'' of Some (IntV i) \<Rightarrow> Some i | _ \<Rightarrow> None)"

definition pk_ok :: "row list \<Rightarrow> bool" where
  "pk_ok rows = (distinct (map ident rows) \<and> list_all (\<lambda>r. ident r \<noteq> None) rows)"

definition with_identity :: "row \<Rightarrow> int \<Rightarrow> row \<times> int" where
  "with_identity r n =
     (if col r ''id'' = NullV then (r(''id'' \<mapsto> IntV n), n + 1) else (r, n))"

text \<open>
  Modelled from the spec: the flush. Each pending object, in the order of construction,
  is inserted into the table of its class: the column defaults fill what the object
  does not set, the table's sequence gives the identity when the object has none
  (``assigns identity on first flush''), and an insert that breaks the primary key
  raises and stops the flush.
\<close>

fun flush ::
  "int \<Rightarrow> obj list \<Rightarrow> (string \<Rightarrow> row list) \<Rightarrow> (string \<Rightarrow> int) \<Rightarrow>
     (exn + unit) \<times> obj list \<times> (string \<Rightarrow> row list) \<times> (string \<Rightarrow> int)" where
  "flush t [] tabs sq = (Inr (), [], tabs, sq)"
| "flush t (ob # obs) tabs sq =
     (if life ob \<noteq> Pending then
        (case flush t obs tabs sq of
           (res, obs', tabs', sq') \<Rightarrow> (res, ob # obs', tabs', sq'))
      else
        (let tn = tablename (cname (ecls (ent ob)));
             filled = insert_defaults (base (ecls (ent ob))) t ++ attrs (ent ob);
             r = fst (with_identity filled (sq tn));
             n = snd (with_identity filled (sq tn));
             rows = tabs tn @ [r]
         in if pk_ok rows then
              (case flush t obs (tabs(tn := rows)) (sq(tn := n)) of
                 (res, obs', tabs', sq') \<Rightarrow>
                   (res, ob\<lparr>ent := (ent ob)\<lparr>attrs := r\<rparr>, life := Flushed\<rparr> # obs', tabs', sq'))
            else (Inl IntegrityError, ob # obs, tabs, sq(tn := n))))"

definition session_flush :: "session \<Rightarrow> (exn + unit) \<times> session" where
  "session_flush s =
     (case flush (now s) (objs s) (view s) (seq s) of
        (res, obs, tabs, sq) \<Rightarrow> (res, s\<lparr>view := tabs, objs := obs, seq := sq\<rparr>))"

fun settle :: "obj \<Rightarrow> obj" where
  "settle ob = (if life ob = Flushed then ob\<lparr>life := Persistent\<rparr> else ob)"

fun expunge :: "obj \<Rightarrow> obj" where
  "expunge ob = (if life ob = Pending \<or> life ob = Flushed then ob\<lparr>life := Transient\<rparr> else ob)"

text \<open>
  Modelled from the spec: \<^verbatim>\<open>db.add\<close>, \<^verbatim>\<open>db.commit\<close>, \<^verbatim>\<open>db.rollback\<close> and
  \<^verbatim>\<open>db.refresh\<close>. A commit flushes and then makes the view the stored state; a
  commit that raises stores nothing. A rollback makes the stored state the view again
  and expunges the objects that were added or flushed in the transaction. A refresh
  reloads a persistent object from its row and raises for an object that is not
  persistent in the session.
\<close>

definition session_add :: "nat \<Rightarrow> session \<Rightarrow> session" where
  "session_add object s =
     (if object < length (objs s) \<and> life (objs s ! object) = Transient
      then s\<lparr>objs := (objs s)[object := (objs s ! object)\<lparr>life := Pending\<rparr>]\<rparr>
      else s)"

definition session_commit :: "session \<Rightarrow> (exn + unit) \<times> session" where
  "session_commit s =
     (case db_call s of
        (Some e, s1) \<Rightarrow> (Inl e, s1)
      | (None, s1) \<Rightarrow>
          (case session_flush s1 of
             (Inl e, s2) \<Rightarrow> (Inl e, s2)
           | (Inr u, s2) \<Rightarrow> (Inr (), s2\<lparr>stored := view s2, objs := map settle (objs s2)\<rparr>)))"

definition session_rollback :: "session \<Rightarrow> (exn + unit) \<times> session" where
  "session_rollback s =
     (case db_call s of
        (Some e, s1) \<Rightarrow> (Inl e, s1)
      | (None, s1) \<Rightarrow> (Inr (), s1\<lparr>view := stored s1, objs := map expunge (objs s1)\<rparr>))"

definition session_refresh :: "nat \<Rightarrow> session \<Rightarrow> (exn + unit) \<times> session" where
  "session_refresh object s =
     (if object < length (objs s)
         \<and> (life (objs s ! object) = Flushed \<or> life (objs s ! object) = Persistent)
      then
        (case db_call s of
           (Some e, s1) \<Rightarrow> (Inl e, s1)
         | (None, s1) \<Rightarrow>
             (let ob = objs s1 ! object;
                  tn = tablename (cname (ecls (ent ob)))
              in case find (\<lambda>r. col r ''id'' = col (attrs (ent ob)) ''id'') (view s1 tn) of
                   None \<Rightarrow> (Inl InvalidRequestError, s1)
                 | Some r \<Rightarrow>
                     (Inr (), s1\<lparr>objs := (objs s1)[object := ob\<lparr>ent := (ent ob)\<lparr>attrs := r\<rparr>\<rparr>]\<rparr>)))
      else (Inl InvalidRequestError, s))"

section \<open>Queries and their execution\<close>

text \<open>
  Modelled from the spec: the query builder. A query is a statement with its
  \<^verbatim>\<open>where\<close> criteria (a predicate on rows; further criteria are conjoined), the
  values of an update, the relationship to load eagerly and the session
  synchronisation option. The last two do not change which rows a statement selects
  or writes.
\<close>

datatype stmt =
    SelectEntity cls
  | SelectColumns cls "string list"
  | SelectCount cls
  | UpdateStmt cls
  | DeleteStmt cls

record query =
  stmt :: stmt
  whereclause :: "row \<Rightarrow> bool"
  vals :: row
  eager :: "string option"
  sync :: "string option"

definition statement :: "stmt \<Rightarrow> query" where
  "statement st =
     \<lparr>stmt = st, whereclause = (\<lambda>r. True), vals = Map.empty, eager = None, sync = None\<rparr>"

definition select :: "cls \<Rightarrow> query" where
  "select c = statement (SelectEntity c)"

definition select_columns :: "cls \<Rightarrow> string list \<Rightarrow> query" where
  "select_columns c columns = statement (SelectColumns c columns)"

definition select_count_from :: "cls \<Rightarrow> query" where
  "select_count_from c = statement (SelectCount c)"

definition sqlalchemy_update :: "cls \<Rightarrow> query" where
  "sqlalchemy_update c = statement (UpdateStmt c)"

definition sqlalchemy_delete :: "cls \<Rightarrow> query" where
  "sqlalchemy_delete c = statement (DeleteStmt c)"

definition q_where :: "query \<Rightarrow> (row \<Rightarrow> bool) \<Rightarrow> query" where
  "q_where q criteria = q\<lparr>whereclause := (\<lambda>r. whereclause q r \<and> criteria r)\<rparr>"

definition q_values :: "query \<Rightarrow> row \<Rightarrow> query" where
  "q_values q kwargs = q\<lparr>vals := vals q ++ kwargs\<rparr>"

definition q_options :: "query \<Rightarrow> string \<Rightarrow> query" where
  "q_options q relationship = q\<lparr>eager := Some relationship\<rparr>"

definition execution_options :: "query \<Rightarrow> string \<Rightarrow> query" where
  "execution_options q synchronize_session = q\<lparr>sync := Some synchronize_session\<rparr>"

text \<open>The criteria \<^verbatim>\<open>cls.id == id_\<close>.\<close>

definition id_eq :: "val \<Rightarrow> row \<Rightarrow> bool" where
  "id_eq id_v r = (col r ''id'' = id_v)"

text \<open>
  Modelled from the spec: the result of a statement. A select gives rows, in the
  order the engine produces them (here the order of the table); a row of
  \<^verbatim>\<open>select(cls)\<close> holds the entity, a row of \<^verbatim>\<open>select(*columns)\<close> the values of the
  columns, the row of the count its number. An update or delete gives no rows.
  \<^verbatim>\<open>scalar()\<close> is the first column of the first row, or \<^verbatim>\<open>None\<close> without a row;
  \<^verbatim>\<open>scalars()\<close> is the first column of every row.
\<close>

datatype cell = Ent entity | Val val

datatype result = Rows "cell list list" | NoRows

definition scalar :: "result \<Rightarrow> exn + cell option" where
  "scalar res =
     (case res of
        NoRows \<Rightarrow> Inl ResourceClosedError
      | Rows [] \<Rightarrow> Inr None
      | Rows (r # rs) \<Rightarrow> (case r of [] \<Rightarrow> Inr None | c # cs \<Rightarrow> Inr (Some c)))"

definition scalars :: "result \<Rightarrow> exn + cell list" where
  "scalars res =
     (case res of
        NoRows \<Rightarrow> Inl ResourceClosedError
      | Rows rs \<Rightarrow> Inr (concat (map (take 1) rs)))"

text \<open>
  Modelled from the spec: what a statement does to the view. An update writes the
  values (and the \<^verbatim>\<open>onupdate\<close> defaults for the columns it does not set) into the rows
  that satisfy the criteria and raises when the written table breaks the primary key;
  a delete removes the rows that satisfy the criteria; neither touches another row.
\<close>

definition run_stmt :: "query \<Rightarrow> session \<Rightarrow> (exn + result) \<times> session" where
  "run_stmt q s =
     (case stmt q of
        SelectEntity c \<Rightarrow>
          (Inr (Rows (map (\<lambda>r. [Ent \<lparr>ecls = c, attrs = r\<rparr>])
                       (filter (whereclause q) (view s (tablename (cname c)))))), s)
      | SelectColumns c columns \<Rightarrow>
          (if columns = [] then (Inl ProgrammingError, s)
           else (Inr (Rows (map (\<lambda>r. map (\<lambda>k. Val (col r k)) columns)
                              (filter (whereclause q) (view s (tablename (cname c)))))), s))
      | SelectCount c \<Rightarrow>
          (Inr (Rows [[Val (IntV (int (length
                  (filter (whereclause q) (view s (tablename (cname c)))))))]]), s)
      | UpdateStmt c \<Rightarrow>
          (let tn = tablename (cname c);
               rows = map (\<lambda>r. if whereclause q r
                                 then r ++ update_defaults (base c) (now s) ++ vals q
                                 else r) (view s tn)
           in if pk_ok rows then (Inr NoRows, s\<lparr>view := (view s)(tn := rows)\<rparr>)
              else (Inl IntegrityError, s))
      | DeleteStmt c \<Rightarrow>
          (let tn = tablename (cname c)
           in (Inr NoRows,
               s\<lparr>view := (view s)(tn := filter (\<lambda>r. \<not> whereclause q r) (view s tn))\<rparr>)))"

text \<open>
  Modelled from the spec: \<^verbatim>\<open>db.execute\<close>. The session flushes what is pending before
  it runs the statement (autoflush is on by default).
\<close>

definition session_execute :: "query \<Rightarrow> session \<Rightarrow> (exn + result) \<times> session" where
  "session_execute q s =
     (case db_call s of
        (Some e, s1) \<Rightarrow> (Inl e, s1)
      | (None, s1) \<Rightarrow>
          (case session_flush s1 of
             (Inl e, s2) \<Rightarrow> (Inl e, s2)
           | (Inr u, s2) \<Rightarrow> run_stmt q s2))"

section \<open>The mixin \<^verbatim>\<open>AbstractClass\<close>\<close>

text \<open>
  An operation takes the session and returns its result, or the exception it raises,
  with the session it leaves. \<open>and_then\<close> is the sequencing of two awaited steps: an
  exception of the first leaves the operation. One operation runs at a time: the
  interleaving of several coroutines on the shared session is outside the model.
  An entity that an operation returns is the value of the object at the return: its
  class and its columns. The source's \<^verbatim>\<open>filter\<close> and \<^verbatim>\<open>all\<close> are \<open>filter_by\<close> and
  \<open>all_rows\<close> here, the first name being taken by the list function of HOL.
\<close>

definition and_then ::
  "(session \<Rightarrow> (exn + 'a) \<times> session) \<Rightarrow> ('a \<Rightarrow> session \<Rightarrow> (exn + 'b) \<times> session) \<Rightarrow>
     session \<Rightarrow> (exn + 'b) \<times> session" where
  "and_then m f s = (case m s of (Inl e, s1) \<Rightarrow> (Inl e, s1) | (Inr a, s1) \<Rightarrow> f a s1)"

definition print_exn :: "exn \<Rightarrow> session \<Rightarrow> session" where
  "print_exn e s = s\<lparr>printed := printed s @ [e]\<rparr>"

text \<open>\<^verbatim>\<open>cls(**kwargs)\<close>: a new transient object, named by its index.\<close>

definition construct :: "cls \<Rightarrow> row \<Rightarrow> session \<Rightarrow> nat \<times> session" where
  "construct c kwargs s =
     (length (objs s),
      s\<lparr>objs := objs s @ [\<lparr>ent = \<lparr>ecls = c, attrs = kwargs\<rparr>, life = Transient\<rparr>]\<rparr>)"

text \<open>
  \<^verbatim>\<open>commit\<close>: the \<^verbatim>\<open>try\<close> around \<^verbatim>\<open>db.commit()\<close>; the handler
  \<^verbatim>\<open>except Exception as e\<close> prints and rolls back, and what the rollback raises leaves
  the handler.
\<close>

definition commit :: "session \<Rightarrow> (exn + unit) \<times> session" where
  "commit s =
     (case session_commit s of
        (Inr u, s1) \<Rightarrow> (Inr (), s1)
      | (Inl e, s1) \<Rightarrow>
          (if is_Exception e then session_rollback (print_exn e s1) else (Inl e, s1)))"

text \<open>
  \<^verbatim>\<open>create\<close>: the object is constructed, added, committed and refreshed, and returned
  as it is then.
\<close>

definition refresh :: "nat \<Rightarrow> session \<Rightarrow> (exn + unit) \<times> session" where
  "refresh object s = session_refresh object s"

definition create :: "cls \<Rightarrow> row \<Rightarrow> session \<Rightarrow> (exn + entity) \<times> session" where
  "create c kwargs s =
     (case construct c kwargs s of
        (object, s1) \<Rightarrow>
          and_then commit
            (\<lambda>u. and_then (refresh object) (\<lambda>v s4. (Inr (ent (objs s4 ! object)), s4)))
            (session_add object s1))"

definition update :: "cls \<Rightarrow> val \<Rightarrow> row \<Rightarrow> session \<Rightarrow> (exn + unit) \<times> session" where
  "update c id_v kwargs =
     (let query = execution_options
                    (q_values (q_where (sqlalchemy_update c) (id_eq id_v)) kwargs) ''fetch''
      in and_then (session_execute query) (\<lambda>res. commit))"

definition get ::
  "cls \<Rightarrow> (row \<Rightarrow> bool) \<Rightarrow> string option \<Rightarrow> session \<Rightarrow> (exn + cell option) \<times> session" where
  "get c criteria relationship =
     (let query = q_where (select c) criteria;
          query = (case relationship of None \<Rightarrow> query | Some rel \<Rightarrow> q_options query rel)
      in and_then (session_execute query) (\<lambda>res s. (scalar res, s)))"

definition count :: "cls \<Rightarrow> session \<Rightarrow> (exn + cell option) \<times> session" where
  "count c =
     (let query = select_count_from c
      in and_then (session_execute query) (\<lambda>res s. (scalar res, s)))"

definition delete_by_id :: "cls \<Rightarrow> val \<Rightarrow> session \<Rightarrow> (exn + unit) \<times> session" where
  "delete_by_id c id_v =
     (let query = q_where (sqlalchemy_delete c) (id_eq id_v)
      in and_then (session_execute query) (\<lambda>res. commit))"

definition delete :: "entity \<Rightarrow> session \<Rightarrow> (exn + unit) \<times> session" where
  "delete self =
     (let query = q_where (sqlalchemy_delete (ecls self)) (id_eq (col (attrs self) ''id''))
      in and_then (session_execute query) (\<lambda>res. commit))"

text \<open>
  \<^verbatim>\<open>filter\<close>: \<^verbatim>\<open>if columns:\<close> is false for \<^verbatim>\<open>None\<close> and for an empty sequence. The
  lazy result of \<^verbatim>\<open>scalars()\<close> is the list of what it yields.
\<close>

definition filter_by ::
  "cls \<Rightarrow> (row \<Rightarrow> bool) \<Rightarrow> string option \<Rightarrow> string list option \<Rightarrow> session \<Rightarrow>
     (exn + cell list) \<times> session" where
  "filter_by c criteria relationship columns =
     (let query = (case columns of
                     None \<Rightarrow> select c
                   | Some cs \<Rightarrow> if cs = [] then select c else select_columns c cs);
          query = q_where query criteria;
          query = (case relationship of None \<Rightarrow> query | Some rel \<Rightarrow> q_options query rel)
      in and_then (session_execute query) (\<lambda>res s. (scalars res, s)))"

definition all_rows :: "cls \<Rightarrow> session \<Rightarrow> (exn + cell list) \<times> session" where
  "all_rows c = and_then (session_execute (select c)) (\<lambda>res s. (scalars res, s))"

definition run_query :: "query \<Rightarrow> session \<Rightarrow> (exn + cell list) \<times> session" where
  "run_query query = and_then (session_execute query) (\<lambda>result s. (scalars result, s))"

definition query_count :: "query \<Rightarrow> session \<Rightarrow> (exn + cell option) \<times> session" where
  "query_count query = and_then (session_execute query) (\<lambda>result s. (scalar result, s))"

section \<open>A small database for the examples\<close>

definition User :: cls where
  "User = \<lparr>cname = ''User'', base = BaseModel\<rparr>"

definition ann :: row where
  "ann = [''id'' \<mapsto> IntV 1, ''name'' \<mapsto> StrV ''ann'']"

definition bob :: row where
  "bob = [''id'' \<mapsto> IntV 2, ''name'' \<mapsto> StrV ''bob'']"

definition demo_db :: "string \<Rightarrow> row list" where
  "demo_db = (\<lambda>t. [])(''users'' := [ann, bob])"

text \<open>A session over the two users, with the outcomes \<open>fs\<close> of its awaited calls.\<close>

definition demo :: "exn option list \<Rightarrow> session" where
  "demo fs = \<lparr>stored = demo_db, view = demo_db, objs = [], seq = (\<lambda>t. 3), now = 0,
              printed = [], faults = fs\<rparr>"

text \<open>The same session after \<^verbatim>\<open>db.add(User(**kwargs))\<close>.\<close>

definition staged :: "row \<Rightarrow> exn option list \<Rightarrow> session" where
  "staged kwargs fs = session_add 0 (snd (construct User kwargs (demo fs)))"

section \<open>The queries the operations build\<close>

text \<open>
  The value of \<^verbatim>\<open>query\<close> at the \<^verbatim>\<open>db.execute(query)\<close> of \<open>get\<close>, \<open>filter_by\<close>,
  \<open>update\<close> and the two deletes, named so that a statement can say which call of the
  session it is about.
\<close>

definition get_query :: "cls \<Rightarrow> (row \<Rightarrow> bool) \<Rightarrow> string option \<Rightarrow> query" where
  "get_query c criteria relationship =
     (case relationship of
        None \<Rightarrow> q_where (select c) criteria
      | Some rel \<Rightarrow> q_options (q_where (select c) criteria) rel)"

definition filter_query ::
  "cls \<Rightarrow> (row \<Rightarrow> bool) \<Rightarrow> string option \<Rightarrow> string list option \<Rightarrow> query" where
  "filter_query c criteria relationship columns =
     (let query = (case columns of
                     None \<Rightarrow> select c
                   | Some cs \<Rightarrow> if cs = [] then select c else select_columns c cs);
          query = q_where query criteria
      in case relationship of None \<Rightarrow> query | Some rel \<Rightarrow> q_options query rel)"

definition update_query :: "cls \<Rightarrow> val \<Rightarrow> row \<Rightarrow> query" where
  "update_query c id_v kwargs =
     execution_options (q_values (q_where (sqlalchemy_update c) (id_eq id_v)) kwargs) ''fetch''"

definition delete_query :: "cls \<Rightarrow> val \<Rightarrow> query" where
  "delete_query c id_v = q_where (sqlalchemy_delete c) (id_eq id_v)"

text \<open>User 1 as an entity instance.\<close>

definition ann_entity :: entity where
  "ann_entity = \<lparr>ecls = User, attrs = ann\<rparr>"

text \<open>
  The session after a \<open>delete_by_id\<close> of user 1 whose commit was cancelled: the
  delete is seen and not stored. The next two calls of the database are still to
  come: an execute that goes through and a commit that raises.
\<close>

definition interrupted :: session where
  "interrupted =
     snd (delete_by_id User (IntV 1)
            (demo [None, Some CancelledError, None, Some OperationalError]))"

section \<open>Properties of the table name\<close>

lemma tablename_loop_concat:
  "tablename_loop acc cs =
     acc @ concat (map (\<lambda>d. if isupper d then [CHR ''_'', d] else [d]) cs)"
  by (induction cs arbitrary: acc) simp_all

lemma tablename_loop_spec:
  "tablename_loop (take 1 name) (drop 1 name) = spec_underscores name"
  by (cases name) (simp_all add: tablename_loop_concat)

lemma endswith_y: "endswith s ''y'' = (s \<noteq> [] \<and> last s = CHR ''y'')"
proof (cases s rule: rev_cases)
  case Nil
  then show ?thesis by (simp add: endswith_def)
next
  case (snoc ys y)
  then show ?thesis by (auto simp: endswith_def)
qed

text \<open>
  C2. For every class name, the derived table name is the name with an underscore before
  each internal capital letter, lower-cased and pluralised (a trailing \<open>y\<close> becomes
  \<open>ie\<close> followed by \<open>s\<close>, otherwise \<open>s\<close> is appended); \<open>UserAccount\<close> gives
  \<open>user_accounts\<close> and \<open>Category\<close> gives \<open>categories\<close>. The table name is a function of
  the class name alone.
\<close>

theorem tablename_is_spec_tablename:
  "tablename name = spec_tablename name
   \<and> tablename ''UserAccount'' = ''user_accounts''
   \<and> tablename ''Category'' = ''categories''"
proof -
  have general: "tablename name = spec_tablename name" for name
    unfolding tablename_def spec_tablename_def spec_pluralize_def lower_def Let_def
      tablename_loop_spec endswith_y
    by simp
  have ua: "spec_tablename ''UserAccount'' = ''user_accounts''"
    by code_simp
  have cat: "spec_tablename ''Category'' = ''categories''"
    by code_simp
  show ?thesis using general ua cat by simp
qed

section \<open>The session: what its calls leave alone\<close>

lemma db_call_frame:
  "db_call s = (f, s1) \<Longrightarrow>
     stored s1 = stored s \<and> view s1 = view s \<and> objs s1 = objs s \<and> seq s1 = seq s
     \<and> now s1 = now s \<and> printed s1 = printed s"
  by (auto simp: db_call_def split: list.splits)

lemma session_flush_frame:
  "session_flush s = (res, s1) \<Longrightarrow>
     stored s1 = stored s \<and> printed s1 = printed s \<and> faults s1 = faults s \<and> now s1 = now s"
  by (auto simp: session_flush_def split: prod.splits)

lemma session_commit_raises_frame:
  assumes "session_commit s = (Inl e, s1)"
  shows "stored s1 = stored s \<and> printed s1 = printed s"
proof -
  obtain f s0 where c: "db_call s = (f, s0)" by (cases "db_call s")
  note fr = db_call_frame [OF c]
  show ?thesis
  proof (cases f)
    case (Some e')
    with assms c fr show ?thesis by (simp add: session_commit_def)
  next
    case None
    obtain res s2 where fl: "session_flush s0 = (res, s2)" by (cases "session_flush s0")
    note fr2 = session_flush_frame [OF fl]
    from assms c None fl fr fr2 show ?thesis
      by (cases res) (auto simp: session_commit_def)
  qed
qed

lemma session_rollback_frame:
  "session_rollback s = (res, s1) \<Longrightarrow> stored s1 = stored s \<and> printed s1 = printed s"
  by (auto simp: session_rollback_def db_call_def split: list.splits option.splits)

lemma session_rollback_returns:
  assumes "session_rollback s = (Inr u, s1)"
  shows "view s1 = stored s \<and> Pending \<notin> life ` set (objs s1) \<and> Flushed \<notin> life ` set (objs s1)"
  using assms
  by (auto simp: session_rollback_def db_call_def split: list.splits option.splits if_splits)

section \<open>\<^verbatim>\<open>commit\<close>: a failed commit is caught\<close>

text \<open>
  C1, as amended. When the session's commit raises an \<^verbatim>\<open>Exception\<close> \<open>e\<close>, the mixin's
  \<open>commit\<close> catches it, prints it and issues the rollback: its outcome is the
  rollback's, so \<open>e\<close> itself is never re-raised, and nothing of the transaction is
  stored. When the rollback returns, \<open>commit\<close> returns without an error, the session
  sees the stored state again, and no object is left pending or flushed.
\<close>

theorem commit_catches_exception:
  assumes "session_commit s = (Inl e, s1)" and "is_Exception e"
  shows "commit s = session_rollback (print_exn e s1)
         \<and> printed (snd (commit s)) = printed s @ [e]
         \<and> stored (snd (commit s)) = stored s
         \<and> (fst (session_rollback (print_exn e s1)) = Inr () \<longrightarrow>
              fst (commit s) = Inr ()
              \<and> view (snd (commit s)) = stored s
              \<and> Pending \<notin> life ` set (objs (snd (commit s)))
              \<and> Flushed \<notin> life ` set (objs (snd (commit s))))"
proof -
  have c: "commit s = session_rollback (print_exn e s1)"
    using assms by (simp add: commit_def)
  obtain res s2 where r: "session_rollback (print_exn e s1) = (res, s2)"
    by (cases "session_rollback (print_exn e s1)")
  note f1 = session_commit_raises_frame [OF assms(1)]
  note f2 = session_rollback_frame [OF r]
  have p: "printed s2 = printed s @ [e]" and st: "stored s2 = stored s"
    using f1 f2 by (simp_all add: print_exn_def)
  have ok: "view s2 = stored s \<and> Pending \<notin> life ` set (objs s2) \<and> Flushed \<notin> life ` set (objs s2)"
    if "res = Inr ()"
    using session_rollback_returns [of "print_exn e s1" "()" s2] r that f1
    by (simp add: print_exn_def)
  show ?thesis using c r p st ok by simp
qed

text \<open>
  The witness: \<^verbatim>\<open>User(id=1)\<close> is staged while user 1 exists, so the flush inside the
  session's commit raises \<^verbatim>\<open>IntegrityError\<close>; the mixin's \<open>commit\<close> returns, has
  printed the exception, and the two users are all that is stored and seen.
\<close>

lemma staged_duplicate_commit_raises:
  "fst (session_commit (staged [''id'' \<mapsto> IntV 1] [])) = Inl IntegrityError"
  by code_simp

lemma staged_duplicate_rollback_returns:
  "fst (session_rollback (print_exn IntegrityError
         (snd (session_commit (staged [''id'' \<mapsto> IntV 1] []))))) = Inr ()"
  by code_simp

theorem commit_catches_exception_witness:
  "fst (session_commit (staged [''id'' \<mapsto> IntV 1] [])) = Inl IntegrityError
   \<and> is_Exception IntegrityError
   \<and> fst (commit (staged [''id'' \<mapsto> IntV 1] [])) = Inr ()
   \<and> printed (snd (commit (staged [''id'' \<mapsto> IntV 1] []))) = [IntegrityError]
   \<and> stored (snd (commit (staged [''id'' \<mapsto> IntV 1] []))) = demo_db
   \<and> view (snd (commit (staged [''id'' \<mapsto> IntV 1] []))) = demo_db"
proof -
  let ?s = "staged [''id'' \<mapsto> IntV 1] []"
  have raised: "session_commit ?s = (Inl IntegrityError, snd (session_commit ?s))"
    using staged_duplicate_commit_raises by (metis prod.collapse)
  have exc: "is_Exception IntegrityError" by simp
  have before: "printed ?s = [] \<and> stored ?s = demo_db"
    by (simp add: staged_def demo_def session_add_def construct_def)
  note t = commit_catches_exception [OF raised exc]
  have a: "printed (snd (commit ?s)) = printed ?s @ [IntegrityError]"
    using t by blast
  have b: "stored (snd (commit ?s)) = stored ?s"
    using t by blast
  have c: "fst (commit ?s) = Inr () \<and> view (snd (commit ?s)) = stored ?s"
    using t staged_duplicate_rollback_returns by blast
  show ?thesis using a b c before staged_duplicate_commit_raises exc by simp
qed

text \<open>
  The claim as stated fails where the rollback raises too (the caller of \<open>commit\<close>
  then observes the rollback's exception), and where what the session's commit raises
  is not an \<^verbatim>\<open>Exception\<close> (a cancellation is not caught).
\<close>

theorem commit_raises_counterexample:
  "fst (session_commit (demo [Some IntegrityError, Some OperationalError])) = Inl IntegrityError
   \<and> fst (commit (demo [Some IntegrityError, Some OperationalError])) = Inl OperationalError
   \<and> fst (session_commit (demo [Some CancelledError])) = Inl CancelledError
   \<and> fst (commit (demo [Some CancelledError])) = Inl CancelledError"
  by code_simp

section \<open>Sequencing, and a session with nothing pending\<close>

lemma and_then_raises: "m s = (Inl e, s1) \<Longrightarrow> and_then m f s = (Inl e, s1)"
  by (simp add: and_then_def)

lemma and_then_returns: "m s = (Inr a, s1) \<Longrightarrow> and_then m f s = f a s1"
  by (simp add: and_then_def)

lemma get_unfold:
  "get c criteria relationship =
     and_then (session_execute (get_query c criteria relationship)) (\<lambda>res s. (scalar res, s))"
  by (simp add: get_def get_query_def Let_def split: option.splits)

lemma filter_by_unfold:
  "filter_by c criteria relationship columns =
     and_then (session_execute (filter_query c criteria relationship columns))
       (\<lambda>res s. (scalars res, s))"
  by (simp add: filter_by_def filter_query_def Let_def split: option.splits)

lemma count_unfold:
  "count c = and_then (session_execute (select_count_from c)) (\<lambda>res s. (scalar res, s))"
  by (simp add: count_def Let_def)

lemma update_unfold:
  "update c id_v kwargs = and_then (session_execute (update_query c id_v kwargs)) (\<lambda>res. commit)"
  by (simp add: update_def update_query_def Let_def)

lemma delete_by_id_unfold:
  "delete_by_id c id_v = and_then (session_execute (delete_query c id_v)) (\<lambda>res. commit)"
  by (simp add: delete_by_id_def delete_query_def Let_def)

lemma delete_unfold:
  "delete self =
     and_then (session_execute (delete_query (ecls self) (col (attrs self) ''id'')))
       (\<lambda>res. commit)"
  by (simp add: delete_def delete_query_def Let_def)

lemma flush_no_pending:
  "Pending \<notin> life ` set obs \<Longrightarrow> flush t obs tabs sq = (Inr (), obs, tabs, sq)"
  by (induction obs) auto

lemma session_flush_no_pending:
  "Pending \<notin> life ` set (objs s) \<Longrightarrow> session_flush s = (Inr (), s)"
  by (simp add: session_flush_def flush_no_pending)

lemma session_execute_quiet:
  assumes "db_call s = (None, s1)" and "Pending \<notin> life ` set (objs s)"
  shows "session_execute q s = run_stmt q s1"
proof -
  have "objs s1 = objs s" using db_call_frame [OF assms(1)] by simp
  with assms(2) have "session_flush s1 = (Inr (), s1)"
    by (simp add: session_flush_no_pending)
  with assms(1) show ?thesis by (simp add: session_execute_def)
qed

lemma session_execute_returns:
  assumes "session_execute q s = (Inr res, s')"
  shows "\<exists>s2. run_stmt q s2 = (Inr res, s')"
  using assms
  by (auto simp: session_execute_def split: prod.splits option.splits sum.splits)

section \<open>\<^verbatim>\<open>get\<close>\<close>

lemma run_get_query:
  "run_stmt (get_query c criteria relationship) s =
     (Inr (Rows (map (\<lambda>r. [Ent \<lparr>ecls = c, attrs = r\<rparr>])
                  (filter criteria (view s (tablename (cname c)))))), s)"
  by (simp add: get_query_def run_stmt_def q_where_def q_options_def select_def statement_def
      split: option.splits)

lemma scalar_select_entity:
  "scalar (Rows (map (\<lambda>r. [Ent \<lparr>ecls = c, attrs = r\<rparr>]) (filter criteria rows))) =
     Inr (map_option (\<lambda>r. Ent \<lparr>ecls = c, attrs = r\<rparr>) (find criteria rows))"
  by (induction rows) (simp_all add: scalar_def)

lemma get_returns:
  assumes "get c criteria relationship s = (Inr x, s')"
  shows "x = map_option (\<lambda>r. Ent \<lparr>ecls = c, attrs = r\<rparr>)
               (find criteria (view s' (tablename (cname c))))"
proof -
  obtain r s1 where ex: "session_execute (get_query c criteria relationship) s = (r, s1)"
    by (cases "session_execute (get_query c criteria relationship) s")
  show ?thesis
  proof (cases r)
    case (Inl e)
    with ex assms show ?thesis by (simp add: get_unfold and_then_def)
  next
    case (Inr res)
    with ex assms have sc: "scalar res = Inr x" and st: "s' = s1"
      by (simp_all add: get_unfold and_then_def)
    from ex Inr obtain s2 where "run_stmt (get_query c criteria relationship) s2 = (Inr res, s1)"
      using session_execute_returns by blast
    then have "res = Rows (map (\<lambda>r. [Ent \<lparr>ecls = c, attrs = r\<rparr>])
                  (filter criteria (view s1 (tablename (cname c)))))"
      by (auto simp: run_get_query)
    with sc st show ?thesis by (simp add: scalar_select_entity)
  qed
qed

lemma get_quiet:
  assumes "db_call s = (None, s1)" and "Pending \<notin> life ` set (objs s)"
  shows "get c criteria relationship s =
           (Inr (map_option (\<lambda>r. Ent \<lparr>ecls = c, attrs = r\<rparr>)
                   (find criteria (view s (tablename (cname c))))), s1)"
proof -
  have v: "view s1 = view s" using db_call_frame [OF assms(1)] by simp
  show ?thesis
    by (simp add: get_unfold and_then_def session_execute_quiet [OF assms] run_get_query
        scalar_select_entity v)
qed

text \<open>
  C7. \<open>get\<close> returns at most one entity (its result is an optional entity): whenever
  it returns, the result is the first row, in the order the engine produces the rows
  of the table, that satisfies the criteria, and the none-value exactly when no row
  does. When the call of the database goes through and nothing is pending, \<open>get\<close>
  does return, with that result for the rows the session sees.
\<close>

theorem get_first_matching_row:
  "(get c criteria relationship s = (Inr x, s') \<longrightarrow>
      x = map_option (\<lambda>r. Ent \<lparr>ecls = c, attrs = r\<rparr>)
            (find criteria (view s' (tablename (cname c))))
      \<and> (x = None) = (\<not> list_ex criteria (view s' (tablename (cname c)))))
   \<and> (fst (db_call s) = None \<and> Pending \<notin> life ` set (objs s) \<longrightarrow>
        fst (get c criteria relationship s) =
          Inr (map_option (\<lambda>r. Ent \<lparr>ecls = c, attrs = r\<rparr>)
                 (find criteria (view s (tablename (cname c))))))"
proof -
  have a: "x = map_option (\<lambda>r. Ent \<lparr>ecls = c, attrs = r\<rparr>)
                 (find criteria (view s' (tablename (cname c))))
           \<and> (x = None) = (\<not> list_ex criteria (view s' (tablename (cname c))))"
    if "get c criteria relationship s = (Inr x, s')"
    using get_returns [OF that] by (auto simp: find_None_iff list_ex_iff)
  have b: "fst (get c criteria relationship s) =
             Inr (map_option (\<lambda>r. Ent \<lparr>ecls = c, attrs = r\<rparr>)
                    (find criteria (view s (tablename (cname c)))))"
    if "fst (db_call s) = None" and "Pending \<notin> life ` set (objs s)"
  proof -
    from that(1) have "db_call s = (None, snd (db_call s))" by (metis prod.collapse)
    from get_quiet [OF this that(2)] show ?thesis by simp
  qed
  show ?thesis using a b by blast
qed

lemma tablename_User: "tablename (cname User) = ''users''"
  unfolding User_def by code_simp

lemma demo_quiet:
  "db_call (demo []) = (None, demo []) \<and> Pending \<notin> life ` set (objs (demo []))"
  by (simp add: demo_def db_call_def)

lemma demo_users: "view (demo fs) (tablename (cname User)) = [ann, bob]"
  by (simp add: demo_def demo_db_def tablename_User)

text \<open>
  The witness: every user satisfies the criteria, and \<open>get\<close> returns the first one.
\<close>

theorem get_first_matching_row_witness:
  "fst (db_call (demo [])) = None
   \<and> Pending \<notin> life ` set (objs (demo []))
   \<and> get User (\<lambda>r. True) None (demo []) = (Inr (Some (Ent \<lparr>ecls = User, attrs = ann\<rparr>)), demo [])
   \<and> list_ex (\<lambda>r. True) (view (demo []) (tablename (cname User)))"
proof -
  have q: "fst (db_call (demo [])) = None \<and> Pending \<notin> life ` set (objs (demo []))"
    using demo_quiet by simp
  have g: "get User (\<lambda>r. True) None (demo []) =
             (Inr (Some (Ent \<lparr>ecls = User, attrs = ann\<rparr>)), demo [])"
    using get_quiet [of "demo []" "demo []" User "\<lambda>r. True" None] demo_quiet
    by (simp add: demo_users)
  note t = get_first_matching_row [of User "\<lambda>r. True" None "demo []"
      "Some (Ent \<lparr>ecls = User, attrs = ann\<rparr>)" "demo []"]
  from t g have "(Some (Ent \<lparr>ecls = User, attrs = ann\<rparr>) = None) =
      (\<not> list_ex (\<lambda>r. True) (view (demo []) (tablename (cname User))))"
    by blast
  then have "list_ex (\<lambda>r. True) (view (demo []) (tablename (cname User)))"
    by simp
  with q g show ?thesis by simp
qed

section \<open>Which errors reach the caller\<close>

lemma commit_after_raise:
  assumes "session_commit s = (Inl e, s1)"
  shows "commit s = (if is_Exception e then session_rollback (print_exn e s1) else (Inl e, s1))"
  using assms by (simp add: commit_def)

text \<open>
  C9, as amended. \<open>get\<close>, \<open>filter_by\<close>, \<open>count\<close> and \<open>run_query\<close> raise whatever their
  \<^verbatim>\<open>db.execute\<close> raises, unmodified, and leave the session as the call left it; so
  does \<open>delete\<close> for its \<^verbatim>\<open>db.execute\<close>. What the session's commit raises inside
  \<open>delete\<close> is not propagated when it is an \<^verbatim>\<open>Exception\<close>: the outcome of \<open>delete\<close>
  is then the outcome of the rollback.
\<close>

theorem execute_errors_propagate:
  "(session_execute (get_query c criteria relationship) s = (Inl e, s1) \<longrightarrow>
      get c criteria relationship s = (Inl e, s1))
   \<and> (session_execute (filter_query c criteria relationship columns) s = (Inl e, s1) \<longrightarrow>
      filter_by c criteria relationship columns s = (Inl e, s1))
   \<and> (session_execute (select_count_from c) s = (Inl e, s1) \<longrightarrow> count c s = (Inl e, s1))
   \<and> (session_execute q s = (Inl e, s1) \<longrightarrow> run_query q s = (Inl e, s1))
   \<and> (session_execute (delete_query (ecls self) (col (attrs self) ''id'')) s = (Inl e, s1) \<longrightarrow>
      delete self s = (Inl e, s1))
   \<and> (session_execute (delete_query (ecls self) (col (attrs self) ''id'')) s = (Inr res, s1)
        \<and> session_commit s1 = (Inl e, s2) \<and> is_Exception e \<longrightarrow>
      delete self s = session_rollback (print_exn e s2))"
proof -
  have "delete self s = session_rollback (print_exn e s2)"
    if "session_execute (delete_query (ecls self) (col (attrs self) ''id'')) s = (Inr res, s1)"
      and "session_commit s1 = (Inl e, s2)" and "is_Exception e"
    using that by (simp add: delete_unfold and_then_def commit_after_raise)
  then show ?thesis
    by (simp add: get_unfold filter_by_unfold count_unfold run_query_def delete_unfold
        and_then_raises)
qed

lemma demo_execute_raises:
  "session_execute q (demo [Some OperationalError]) = (Inl OperationalError, demo [])"
  by (simp add: session_execute_def db_call_def demo_def)

lemma demo_delete_executes:
  "fst (session_execute (delete_query (ecls ann_entity) (col (attrs ann_entity) ''id''))
          (demo [None, Some IntegrityError])) = Inr NoRows"
  by (simp add: session_execute_def db_call_def demo_def session_flush_def run_stmt_def
      delete_query_def q_where_def sqlalchemy_delete_def statement_def Let_def)

lemma demo_delete_commit_raises:
  "fst (session_commit (snd (session_execute
             (delete_query (ecls ann_entity) (col (attrs ann_entity) ''id''))
             (demo [None, Some IntegrityError])))) = Inl IntegrityError"
  by code_simp

lemma demo_delete_returns:
  "fst (delete ann_entity (demo [None, Some IntegrityError])) = Inr ()"
  by code_simp

theorem execute_errors_propagate_witness:
  "get User (id_eq (IntV 1)) None (demo [Some OperationalError]) = (Inl OperationalError, demo [])
   \<and> filter_by User (id_eq (IntV 1)) None None (demo [Some OperationalError])
       = (Inl OperationalError, demo [])
   \<and> count User (demo [Some OperationalError]) = (Inl OperationalError, demo [])
   \<and> run_query (select User) (demo [Some OperationalError]) = (Inl OperationalError, demo [])
   \<and> delete ann_entity (demo [Some OperationalError]) = (Inl OperationalError, demo [])
   \<and> is_Exception IntegrityError
   \<and> fst (session_commit (snd (session_execute
             (delete_query (ecls ann_entity) (col (attrs ann_entity) ''id''))
             (demo [None, Some IntegrityError])))) = Inl IntegrityError
   \<and> delete ann_entity (demo [None, Some IntegrityError]) =
       session_rollback (print_exn IntegrityError (snd (session_commit (snd (session_execute
             (delete_query (ecls ann_entity) (col (attrs ann_entity) ''id''))
             (demo [None, Some IntegrityError]))))))"
proof -
  let ?s = "demo [Some OperationalError]"
  note t = execute_errors_propagate [where c = User and criteria = "id_eq (IntV 1)"
      and relationship = None and s = ?s and e = OperationalError and ?s1.0 = "demo []"
      and columns = None and q = "select User" and self = ann_entity]
  have a: "get User (id_eq (IntV 1)) None ?s = (Inl OperationalError, demo [])"
    using t demo_execute_raises by blast
  have b: "filter_by User (id_eq (IntV 1)) None None ?s = (Inl OperationalError, demo [])"
    using t demo_execute_raises by blast
  have c: "count User ?s = (Inl OperationalError, demo [])"
    using t demo_execute_raises by blast
  have d: "run_query (select User) ?s = (Inl OperationalError, demo [])"
    using t demo_execute_raises by blast
  have e: "delete ann_entity ?s = (Inl OperationalError, demo [])"
    using t demo_execute_raises by blast
  let ?d = "demo [None, Some IntegrityError]"
  let ?q = "delete_query (ecls ann_entity) (col (attrs ann_entity) ''id'')"
  have x: "session_execute ?q ?d = (Inr NoRows, snd (session_execute ?q ?d))"
    using demo_delete_executes by (metis prod.collapse)
  have y: "session_commit (snd (session_execute ?q ?d)) =
             (Inl IntegrityError, snd (session_commit (snd (session_execute ?q ?d))))"
    using demo_delete_commit_raises by (metis prod.collapse)
  have z: "is_Exception IntegrityError" by simp
  have f: "delete ann_entity ?d =
      session_rollback (print_exn IntegrityError (snd (session_commit (snd (session_execute ?q ?d)))))"
    using execute_errors_propagate [where self = ann_entity and s = ?d and res = NoRows
        and e = IntegrityError and ?s1.0 = "snd (session_execute ?q ?d)"
        and ?s2.0 = "snd (session_commit (snd (session_execute ?q ?d)))"]
      x y z by blast
  show ?thesis using a b c d e f z demo_delete_commit_raises by simp
qed

text \<open>
  Where the claim fails: the session's commit raises inside \<open>delete\<close>, and \<open>delete\<close>
  returns without an error.
\<close>

theorem delete_swallows_commit_error_counterexample:
  "fst (session_commit (snd (session_execute
          (delete_query (ecls ann_entity) (col (attrs ann_entity) ''id''))
          (demo [None, Some IntegrityError])))) = Inl IntegrityError
   \<and> fst (delete ann_entity (demo [None, Some IntegrityError])) = Inr ()"
  by code_simp

section \<open>The two deletes\<close>

text \<open>
  C10. For every entity instance, \<open>delete\<close> is \<open>delete_by_id\<close> of its class at its
  primary key: the same result and the same session, from every session.
\<close>

theorem delete_is_delete_by_id:
  "delete self s = delete_by_id (ecls self) (col (attrs self) ''id'') s"
  by (simp add: delete_def delete_by_id_def)

section \<open>\<^verbatim>\<open>filter\<close>\<close>

lemma scalars_entities:
  "scalars (Rows (map (\<lambda>r. [Ent \<lparr>ecls = c, attrs = r\<rparr>]) rows)) =
     Inr (map (\<lambda>r. Ent \<lparr>ecls = c, attrs = r\<rparr>) rows)"
  by (induction rows) (simp_all add: scalars_def)

lemma scalars_columns:
  "scalars (Rows (map (\<lambda>r. Val (col r k0) # map (\<lambda>k. Val (col r k)) ks) rows)) =
     Inr (map (\<lambda>r. Val (col r k0)) rows)"
  by (induction rows) (simp_all add: scalars_def)

lemma run_filter_query_entities:
  "columns = None \<or> columns = Some [] \<Longrightarrow>
   run_stmt (filter_query c criteria relationship columns) s =
     (Inr (Rows (map (\<lambda>r. [Ent \<lparr>ecls = c, attrs = r\<rparr>])
                  (filter criteria (view s (tablename (cname c)))))), s)"
  by (cases relationship)
    (auto simp: filter_query_def run_stmt_def q_where_def q_options_def select_def statement_def
      Let_def)

lemma run_filter_query_columns:
  "run_stmt (filter_query c criteria relationship (Some (k0 # ks))) s =
     (Inr (Rows (map (\<lambda>r. map (\<lambda>k. Val (col r k)) (k0 # ks))
                  (filter criteria (view s (tablename (cname c)))))), s)"
  by (cases relationship)
    (simp_all add: filter_query_def run_stmt_def q_where_def q_options_def select_columns_def
      statement_def Let_def)

text \<open>
  Without columns, \<open>filter_by\<close> yields exactly the rows that satisfy the criteria, as
  entities, in the order the engine produces them.
\<close>

lemma filter_by_entities:
  assumes "db_call s = (None, s1)" and "Pending \<notin> life ` set (objs s)"
    and "columns = None \<or> columns = Some []"
  shows "filter_by c criteria relationship columns s =
           (Inr (map (\<lambda>r. Ent \<lparr>ecls = c, attrs = r\<rparr>)
                   (filter criteria (view s (tablename (cname c))))), s1)"
proof -
  have v: "view s1 = view s" using db_call_frame [OF assms(1)] by simp
  show ?thesis
    by (simp add: filter_by_unfold and_then_def session_execute_quiet [OF assms(1,2)]
        run_filter_query_entities [OF assms(3)] scalars_entities v)
qed

text \<open>
  With columns, \<^verbatim>\<open>scalars()\<close> keeps the first column of every row: \<open>filter_by\<close> yields,
  for the rows that satisfy the criteria, the value of the first of the selected
  columns and nothing of the others.
\<close>

lemma filter_by_columns:
  assumes "db_call s = (None, s1)" and "Pending \<notin> life ` set (objs s)"
  shows "filter_by c criteria relationship (Some (k0 # ks)) s =
           (Inr (map (\<lambda>r. Val (col r k0))
                   (filter criteria (view s (tablename (cname c))))), s1)"
proof -
  have v: "view s1 = view s" using db_call_frame [OF assms(1)] by simp
  show ?thesis
    by (simp add: filter_by_unfold and_then_def session_execute_quiet [OF assms]
        run_filter_query_columns scalars_columns v)
qed

text \<open>
  C8. With \<^verbatim>\<open>columns=[User.name, User.id]\<close> and a criteria that every row satisfies,
  \<open>filter_by\<close> on the two users yields the two names: the \<open>id\<close> column, which was
  selected too, is not in the result.
\<close>

theorem filter_by_two_columns_yields_first:
  "filter_by User (\<lambda>r. True) None (Some [''name'', ''id'']) (demo []) =
     (Inr [Val (StrV ''ann''), Val (StrV ''bob'')], demo [])"
  using filter_by_columns [of "demo []" "demo []" User "\<lambda>r. True" None "''name''" "[''id'']"]
    demo_quiet
  by (simp add: demo_users col_def ann_def bob_def)

section \<open>A session whose calls go through\<close>

lemma db_call_no_faults: "faults s = [] \<Longrightarrow> db_call s = (None, s)"
  by (simp add: db_call_def)

lemma settle_no_pending:
  "Pending \<notin> life ` set obs \<Longrightarrow> Pending \<notin> life ` set (map settle obs)"
  by (induction obs) auto

lemma commit_quiet:
  assumes "faults s = []" and "Pending \<notin> life ` set (objs s)"
  shows "commit s = (Inr (), s\<lparr>stored := view s, objs := map settle (objs s)\<rparr>)"
  using assms
  by (simp add: commit_def session_commit_def db_call_no_faults session_flush_no_pending)

lemma commit_clean_frame:
  assumes "view s = stored s" and "Pending \<notin> life ` set (objs s)"
  shows "view (snd (commit s)) = view s \<and> stored (snd (commit s)) = stored s"
proof (cases "faults s")
  case Nil
  with assms show ?thesis by (simp add: commit_quiet)
next
  case (Cons f fs)
  have fl: "session_flush (s\<lparr>faults := fs\<rparr>) = (Inr (), s\<lparr>faults := fs\<rparr>)"
    using assms(2) by (simp add: session_flush_no_pending)
  show ?thesis
  proof (cases f)
    case None
    with Cons fl assms show ?thesis
      by (simp add: commit_def session_commit_def db_call_def)
  next
    case (Some e)
    with Cons assms show ?thesis
      by (cases fs)
        (auto simp: commit_def session_commit_def session_rollback_def db_call_def print_exn_def
          split: option.splits)
  qed
qed

section \<open>\<^verbatim>\<open>update\<close> and the deletes on the rows\<close>

lemma run_update_query:
  "run_stmt (update_query c id_v kwargs) s =
     (let tn = tablename (cname c);
          rows = map (\<lambda>r. if id_eq id_v r
                            then r ++ update_defaults (base c) (now s) ++ kwargs
                            else r) (view s tn)
      in if pk_ok rows then (Inr NoRows, s\<lparr>view := (view s)(tn := rows)\<rparr>)
         else (Inl IntegrityError, s))"
  by (simp add: update_query_def run_stmt_def execution_options_def q_values_def q_where_def
      sqlalchemy_update_def statement_def Let_def cong: if_cong)

lemma run_delete_query:
  "run_stmt (delete_query c id_v) s =
     (Inr NoRows,
      s\<lparr>view := (view s)(tablename (cname c) :=
             filter (\<lambda>r. \<not> id_eq id_v r) (view s (tablename (cname c))))\<rparr>)"
  by (simp add: delete_query_def run_stmt_def q_where_def sqlalchemy_delete_def statement_def
      Let_def)

lemma run_count_query:
  "run_stmt (select_count_from c) s =
     (Inr (Rows [[Val (IntV (int (length (view s (tablename (cname c))))))]]), s)"
  by (simp add: select_count_from_def run_stmt_def statement_def)

lemma run_update_query_absent:
  assumes "pk_ok (view s (tablename (cname c)))"
    and "\<not> list_ex (id_eq id_v) (view s (tablename (cname c)))"
  shows "run_stmt (update_query c id_v kwargs) s = (Inr NoRows, s)"
proof -
  have "map (\<lambda>r. if id_eq id_v r then r ++ update_defaults (base c) (now s) ++ kwargs else r)
          (view s (tablename (cname c))) = view s (tablename (cname c))"
    using assms(2) by (intro map_idI) (auto simp: list_ex_iff)
  with assms(1) show ?thesis by (simp add: run_update_query)
qed

text \<open>
  C6, as amended. When no row of the table has the given id, and the session is clean
  (nothing pending, nothing uncommitted) and the table keeps its primary key,
  \<open>update\<close> changes no row of any table, neither in what the session sees nor in
  what is stored, whatever the calls of the database do; and when those calls go
  through it raises no error.
\<close>

theorem update_absent_id_changes_nothing:
  assumes "view s = stored s" and "Pending \<notin> life ` set (objs s)"
    and "pk_ok (view s (tablename (cname c)))"
    and "\<not> list_ex (id_eq id_v) (view s (tablename (cname c)))"
  shows "view (snd (update c id_v kwargs s)) = view s
         \<and> stored (snd (update c id_v kwargs s)) = stored s
         \<and> (faults s = [] \<longrightarrow> fst (update c id_v kwargs s) = Inr ())"
proof -
  obtain f s1 where c: "db_call s = (f, s1)" by (cases "db_call s")
  note fr = db_call_frame [OF c]
  show ?thesis
  proof (cases f)
    case (Some e)
    with c have "session_execute (update_query c id_v kwargs) s = (Inl e, s1)"
      by (simp add: session_execute_def)
    then have "update c id_v kwargs s = (Inl e, s1)"
      by (simp add: update_unfold and_then_raises)
    moreover have "faults s \<noteq> []" using c Some by (auto simp: db_call_def)
    ultimately show ?thesis using fr by simp
  next
    case None
    with c assms(2) have "session_execute (update_query c id_v kwargs) s =
        run_stmt (update_query c id_v kwargs) s1"
      by (simp add: session_execute_quiet)
    also have "\<dots> = (Inr NoRows, s1)"
      using assms(3,4) fr by (simp add: run_update_query_absent)
    finally have u: "update c id_v kwargs s = commit s1"
      by (simp add: update_unfold and_then_returns)
    have clean: "view s1 = stored s1" "Pending \<notin> life ` set (objs s1)"
      using assms(1,2) fr by simp_all
    have quiet: "fst (commit s1) = Inr ()" if "faults s = []"
    proof -
      from that c have "s1 = s" by (simp add: db_call_def)
      with that clean show ?thesis by (simp add: commit_quiet)
    qed
    show ?thesis using u commit_clean_frame [OF clean] fr quiet by simp
  qed
qed

lemma pk_ok_demo_users: "pk_ok [ann, bob]"
  by code_simp

text \<open>The witness: no user has id 7.\<close>

theorem update_absent_id_changes_nothing_witness:
  "view (demo []) = stored (demo [])
   \<and> Pending \<notin> life ` set (objs (demo []))
   \<and> pk_ok (view (demo []) (tablename (cname User)))
   \<and> \<not> list_ex (id_eq (IntV 7)) (view (demo []) (tablename (cname User)))
   \<and> faults (demo []) = []
   \<and> fst (update User (IntV 7) [''name'' \<mapsto> StrV ''zed''] (demo [])) = Inr ()
   \<and> view (snd (update User (IntV 7) [''name'' \<mapsto> StrV ''zed''] (demo []))) = demo_db
   \<and> stored (snd (update User (IntV 7) [''name'' \<mapsto> StrV ''zed''] (demo []))) = demo_db"
proof -
  have h1: "view (demo []) = stored (demo [])" by (simp add: demo_def)
  have h2: "Pending \<notin> life ` set (objs (demo []))" by (simp add: demo_def)
  have h3: "pk_ok (view (demo []) (tablename (cname User)))"
    by (simp add: demo_users pk_ok_demo_users)
  have h4: "\<not> list_ex (id_eq (IntV 7)) (view (demo []) (tablename (cname User)))"
    by (simp add: demo_users id_eq_def col_def ann_def bob_def)
  have h5: "faults (demo []) = []" by (simp add: demo_def)
  have v: "view (demo []) = demo_db \<and> stored (demo []) = demo_db" by (simp add: demo_def)
  show ?thesis
    using update_absent_id_changes_nothing [OF h1 h2 h3 h4, of "[''name'' \<mapsto> StrV ''zed'']"]
      h1 h2 h3 h4 h5 v by simp
qed

text \<open>
  Where the claim fails. With an object pending (a \<^verbatim>\<open>create\<close> whose commit was
  cancelled leaves one), \<open>update\<close> of the absent id 7 flushes and commits it: the
  table grows from two rows to three. With a delete uncommitted (its commit was
  cancelled) and the commit inside \<open>update\<close> failing, the rollback brings the deleted
  row back: the table the session sees grows from one row to two. In both cases
  \<open>update\<close> returns without an error.
\<close>

theorem update_absent_id_counterexample:
  "\<not> list_ex (id_eq (IntV 7))
        (view (staged [''name'' \<mapsto> StrV ''cy''] []) (tablename (cname User)))
   \<and> length (view (staged [''name'' \<mapsto> StrV ''cy''] []) (tablename (cname User))) = 2
   \<and> fst (update User (IntV 7) [''name'' \<mapsto> StrV ''zed''] (staged [''name'' \<mapsto> StrV ''cy''] []))
       = Inr ()
   \<and> length (view (snd (update User (IntV 7) [''name'' \<mapsto> StrV ''zed'']
                           (staged [''name'' \<mapsto> StrV ''cy''] []))) (tablename (cname User))) = 3
   \<and> length (stored (snd (update User (IntV 7) [''name'' \<mapsto> StrV ''zed'']
                           (staged [''name'' \<mapsto> StrV ''cy''] []))) (tablename (cname User))) = 3
   \<and> \<not> list_ex (id_eq (IntV 7)) (view interrupted (tablename (cname User)))
   \<and> Pending \<notin> life ` set (objs interrupted)
   \<and> length (view interrupted (tablename (cname User))) = 1
   \<and> fst (update User (IntV 7) [''name'' \<mapsto> StrV ''zed''] interrupted) = Inr ()
   \<and> length (view (snd (update User (IntV 7) [''name'' \<mapsto> StrV ''zed''] interrupted))
               (tablename (cname User))) = 2"
  by code_simp

section \<open>The primary key and the rows of one id\<close>

lemma ident_of_col:
  assumes "ident r \<noteq> None" and "col r' ''id'' = col r ''id''"
  shows "ident r' = ident r"
  using assms
  by (auto simp: ident_def col_def split: option.splits val.splits)

lemma pk_ok_Cons:
  "pk_ok (r # rows) = (ident r \<notin> set (map ident rows) \<and> ident r \<noteq> None \<and> pk_ok rows)"
  by (auto simp: pk_ok_def)

lemma pk_ok_one_row_per_id:
  assumes "pk_ok (r # rows)" and "id_eq id_v r"
  shows "\<not> list_ex (id_eq id_v) rows"
proof
  assume "list_ex (id_eq id_v) rows"
  then obtain r' where r': "r' \<in> set rows" "id_eq id_v r'" by (auto simp: list_ex_iff)
  from assms(1) have nn: "ident r \<noteq> None" and fresh: "ident r \<notin> set (map ident rows)"
    by (simp_all add: pk_ok_Cons)
  from r'(2) assms(2) have "col r' ''id'' = col r ''id''" by (simp add: id_eq_def)
  from ident_of_col [OF nn this] have "ident r = ident r'" by simp
  with r'(1) have "ident r \<in> set (map ident rows)" by auto
  with fresh show False by simp
qed

lemma length_without_id:
  assumes "pk_ok rows"
  shows "int (length (filter (\<lambda>r. \<not> id_eq id_v r) rows)) =
           int (length rows) - (if list_ex (id_eq id_v) rows then 1 else 0)"
  using assms
proof (induction rows)
  case Nil
  then show ?case by simp
next
  case (Cons r rows)
  then have ok: "pk_ok rows" by (simp add: pk_ok_Cons)
  show ?case
  proof (cases "id_eq id_v r")
    case True
    from pk_ok_one_row_per_id [OF Cons.prems True]
    have none: "\<not> list_ex (id_eq id_v) rows" .
    then have "filter (\<lambda>r. \<not> id_eq id_v r) rows = rows"
      by (auto simp: list_ex_iff filter_id_conv)
    with True show ?thesis by simp
  next
    case False
    with Cons.IH [OF ok] show ?thesis by simp
  qed
qed

lemma find_without_id: "find (id_eq id_v) (filter (\<lambda>r. \<not> id_eq id_v r) rows) = None"
  by (simp add: find_None_iff)

section \<open>\<^verbatim>\<open>delete_by_id\<close>, then \<^verbatim>\<open>get\<close> and \<^verbatim>\<open>count\<close>\<close>

lemma count_quiet:
  assumes "faults s = []" and "Pending \<notin> life ` set (objs s)"
  shows "count c s = (Inr (Some (Val (IntV (int (length (view s (tablename (cname c)))))))), s)"
  using assms
  by (simp add: count_unfold and_then_def
      session_execute_quiet [OF db_call_no_faults] run_count_query scalar_def)

lemma delete_by_id_quiet:
  assumes "faults s = []" and "Pending \<notin> life ` set (objs s)"
  shows "delete_by_id c id_v s =
           (Inr (),
            s\<lparr>view := (view s)(tablename (cname c) :=
                   filter (\<lambda>r. \<not> id_eq id_v r) (view s (tablename (cname c)))),
              stored := (view s)(tablename (cname c) :=
                   filter (\<lambda>r. \<not> id_eq id_v r) (view s (tablename (cname c)))),
              objs := map settle (objs s)\<rparr>)"
  using assms
  by (simp add: delete_by_id_unfold and_then_def
      session_execute_quiet [OF db_call_no_faults] run_delete_query commit_quiet)

text \<open>
  C4, as amended. When the calls of the database go through (so that the commit
  inside \<open>delete_by_id\<close> does not fail), nothing is pending and the table keeps its
  primary key: \<open>delete_by_id\<close> raises no error; \<open>get\<close> by that id then returns the
  none-value; and \<open>count\<close> then returns one less than before when a row had the id,
  and the same as before when none had.
\<close>

theorem delete_by_id_then_get_and_count:
  assumes "faults s = []" and "Pending \<notin> life ` set (objs s)"
    and "pk_ok (view s (tablename (cname c)))"
  shows "fst (delete_by_id c id_v s) = Inr ()
         \<and> fst (get c (id_eq id_v) relationship (snd (delete_by_id c id_v s))) = Inr None
         \<and> fst (count c s) = Inr (Some (Val (IntV (int (length (view s (tablename (cname c))))))))
         \<and> fst (count c (snd (delete_by_id c id_v s))) =
             Inr (Some (Val (IntV (int (length (view s (tablename (cname c))))
                - (if list_ex (id_eq id_v) (view s (tablename (cname c))) then 1 else 0)))))"
proof -
  let ?tn = "tablename (cname c)"
  let ?s' = "snd (delete_by_id c id_v s)"
  note d = delete_by_id_quiet [OF assms(1,2), of c id_v]
  have f': "faults ?s' = []" using d assms(1) by simp
  have p': "Pending \<notin> life ` set (objs ?s')"
    using d settle_no_pending [OF assms(2)] by simp
  have v': "view ?s' ?tn = filter (\<lambda>r. \<not> id_eq id_v r) (view s ?tn)"
    using d by simp
  have g: "fst (get c (id_eq id_v) relationship ?s') = Inr None"
    using get_quiet [OF db_call_no_faults [OF f'] p', of c "id_eq id_v" relationship]
    by (simp add: v' find_without_id)
  have c0: "fst (count c s) = Inr (Some (Val (IntV (int (length (view s ?tn))))))"
    using count_quiet [OF assms(1,2), of c] by simp
  have c1: "fst (count c ?s') = Inr (Some (Val (IntV (int (length (view ?s' ?tn))))))"
    using count_quiet [OF f' p', of c] by simp
  show ?thesis
    using d g c0 c1 by (simp add: v' length_without_id [OF assms(3)])
qed

text \<open>
  The witness: of the two users, user 1 is deleted and one is left; deleting the absent
  id 7 leaves the two.
\<close>

theorem delete_by_id_then_get_and_count_witness:
  "faults (demo []) = []
   \<and> Pending \<notin> life ` set (objs (demo []))
   \<and> pk_ok (view (demo []) (tablename (cname User)))
   \<and> list_ex (id_eq (IntV 1)) (view (demo []) (tablename (cname User)))
   \<and> fst (delete_by_id User (IntV 1) (demo [])) = Inr ()
   \<and> fst (get User (id_eq (IntV 1)) None (snd (delete_by_id User (IntV 1) (demo [])))) = Inr None
   \<and> fst (count User (demo [])) = Inr (Some (Val (IntV 2)))
   \<and> fst (count User (snd (delete_by_id User (IntV 1) (demo [])))) = Inr (Some (Val (IntV 1)))
   \<and> \<not> list_ex (id_eq (IntV 7)) (view (demo []) (tablename (cname User)))
   \<and> fst (delete_by_id User (IntV 7) (demo [])) = Inr ()
   \<and> fst (count User (snd (delete_by_id User (IntV 7) (demo [])))) = Inr (Some (Val (IntV 2)))"
proof -
  have h1: "faults (demo []) = []" by (simp add: demo_def)
  have h2: "Pending \<notin> life ` set (objs (demo []))" by (simp add: demo_def)
  have h3: "pk_ok (view (demo []) (tablename (cname User)))"
    by (simp add: demo_users pk_ok_demo_users)
  have present: "list_ex (id_eq (IntV 1)) (view (demo []) (tablename (cname User)))"
    by (simp add: demo_users id_eq_def col_def ann_def bob_def)
  have absent: "\<not> list_ex (id_eq (IntV 7)) (view (demo []) (tablename (cname User)))"
    by (simp add: demo_users id_eq_def col_def ann_def bob_def)
  have n: "length (view (demo []) (tablename (cname User))) = 2"
    by (simp add: demo_users)
  show ?thesis
    using delete_by_id_then_get_and_count [OF h1 h2 h3, of "IntV 1" None]
      delete_by_id_then_get_and_count [OF h1 h2 h3, of "IntV 7" None]
      h1 h2 h3 present absent n by simp
qed

text \<open>
  Where the claim fails. When the commit inside \<open>delete_by_id\<close> raises, the
  exception is swallowed and the delete rolled back: \<open>delete_by_id\<close> of user 1
  returns without an error, \<open>get\<close> by id 1 still returns the user and \<open>count\<close> is
  still 2. And with \<^verbatim>\<open>User(id=1)\<close> pending while user 1 exists, \<open>delete_by_id\<close> of
  the absent id 7 raises the \<^verbatim>\<open>IntegrityError\<close> of the flush.
\<close>

theorem delete_by_id_counterexample:
  "fst (delete_by_id User (IntV 1) (demo [None, Some IntegrityError])) = Inr ()
   \<and> fst (get User (id_eq (IntV 1)) None
             (snd (delete_by_id User (IntV 1) (demo [None, Some IntegrityError])))) \<noteq> Inr None
   \<and> fst (count User (demo [None, Some IntegrityError])) = Inr (Some (Val (IntV 2)))
   \<and> fst (count User (snd (delete_by_id User (IntV 1) (demo [None, Some IntegrityError]))))
       = Inr (Some (Val (IntV 2)))
   \<and> \<not> list_ex (id_eq (IntV 7)) (view (staged [''id'' \<mapsto> IntV 1] []) (tablename (cname User)))
   \<and> fst (delete_by_id User (IntV 7) (staged [''id'' \<mapsto> IntV 1] [])) = Inl IntegrityError"
proof -
  let ?s = "demo [None, Some IntegrityError]"
  have a: "fst (delete_by_id User (IntV 1) ?s) = Inr ()"
    by code_simp
  have "case fst (get User (id_eq (IntV 1)) None (snd (delete_by_id User (IntV 1) ?s))) of
          Inr (Some (Ent e)) \<Rightarrow> col (attrs e) ''name'' = StrV ''ann'' | _ \<Rightarrow> False"
    by code_simp
  then have b: "fst (get User (id_eq (IntV 1)) None (snd (delete_by_id User (IntV 1) ?s)))
                  \<noteq> Inr None"
    by (auto split: sum.splits option.splits)
  have "case fst (count User ?s) of Inr (Some (Val (IntV n))) \<Rightarrow> n = 2 | _ \<Rightarrow> False"
    by code_simp
  then have c: "fst (count User ?s) = Inr (Some (Val (IntV 2)))"
    by (auto split: sum.splits option.splits cell.splits val.splits)
  have "case fst (count User (snd (delete_by_id User (IntV 1) ?s))) of
          Inr (Some (Val (IntV n))) \<Rightarrow> n = 2 | _ \<Rightarrow> False"
    by code_simp
  then have d: "fst (count User (snd (delete_by_id User (IntV 1) ?s)))
                  = Inr (Some (Val (IntV 2)))"
    by (auto split: sum.splits option.splits cell.splits val.splits)
  have e: "\<not> list_ex (id_eq (IntV 7))
               (view (staged [''id'' \<mapsto> IntV 1] []) (tablename (cname User)))"
    by code_simp
  have f: "fst (delete_by_id User (IntV 7) (staged [''id'' \<mapsto> IntV 1] [])) = Inl IntegrityError"
    by code_simp
  show ?thesis using a b c d e f by simp
qed

section \<open>\<^verbatim>\<open>update\<close>, then \<^verbatim>\<open>get\<close>\<close>

lemma update_defaults_id: "update_defaults b t ''id'' = None"
  by (cases b) simp_all

lemma written_row_id:
  assumes "kwargs ''id'' = None"
  shows "(r ++ update_defaults b t ++ kwargs) ''id'' = r ''id''"
  using assms by (simp add: map_add_def update_defaults_id)

lemma written_row_ident:
  assumes "kwargs ''id'' = None"
  shows "ident (if id_eq id_v r then r ++ update_defaults b t ++ kwargs else r) = ident r"
    and "id_eq id_v (if id_eq id_v r then r ++ update_defaults b t ++ kwargs else r) = id_eq id_v r"
  using written_row_id [of kwargs r b t, OF assms] by (simp_all add: ident_def id_eq_def col_def)

lemma pk_ok_written:
  assumes "kwargs ''id'' = None"
  shows "pk_ok (map (\<lambda>r. if id_eq id_v r then r ++ update_defaults b t ++ kwargs else r) rows)
           = pk_ok rows"
proof -
  let ?g = "\<lambda>r. if id_eq id_v r then r ++ update_defaults b t ++ kwargs else r"
  have i: "ident (?g r) = ident r" for r
    using written_row_ident(1) [of kwargs id_v r b t, OF assms] by simp
  have a: "map ident (map ?g rows) = map ident rows"
    unfolding map_map comp_def i ..
  have b: "list_all (\<lambda>r. ident r \<noteq> None) (map ?g rows) = list_all (\<lambda>r. ident r \<noteq> None) rows"
    unfolding list.pred_map comp_def i ..
  show ?thesis unfolding pk_ok_def a b ..
qed

lemma find_written:
  assumes "kwargs ''id'' = None"
  shows "find (id_eq id_v)
           (map (\<lambda>r. if id_eq id_v r then r ++ update_defaults b t ++ kwargs else r) rows) =
         map_option (\<lambda>r. r ++ update_defaults b t ++ kwargs) (find (id_eq id_v) rows)"
proof (induction rows)
  case Nil
  then show ?case by simp
next
  case (Cons r rows)
  show ?case
  proof (cases "id_eq id_v r")
    case True
    moreover from True have "id_eq id_v (r ++ update_defaults b t ++ kwargs)"
      using written_row_ident(2) [of kwargs id_v r b t, OF assms] by simp
    ultimately show ?thesis by simp
  next
    case False
    with Cons.IH show ?thesis by simp
  qed
qed

lemma find_row_of_id:
  assumes "pk_ok rows" and "r \<in> set rows" and "id_eq id_v r"
  shows "find (id_eq id_v) rows = Some r"
  using assms
proof (induction rows)
  case Nil
  then show ?case by simp
next
  case (Cons x rows)
  show ?case
  proof (cases "id_eq id_v x")
    case True
    from pk_ok_one_row_per_id [OF Cons.prems(1) True] Cons.prems(2,3)
    have "r = x" by (auto simp: list_ex_iff)
    with True show ?thesis by simp
  next
    case False
    with Cons.prems have "r \<in> set rows" "pk_ok rows" by (auto simp: pk_ok_Cons)
    with Cons.IH Cons.prems(3) False show ?thesis by simp
  qed
qed

lemma update_quiet:
  assumes "faults s = []" and "Pending \<notin> life ` set (objs s)"
    and "pk_ok (map (\<lambda>r. if id_eq id_v r then r ++ update_defaults (base c) (now s) ++ kwargs
                           else r) (view s (tablename (cname c))))"
  shows "update c id_v kwargs s =
           (Inr (),
            s\<lparr>view := (view s)(tablename (cname c) :=
                   map (\<lambda>r. if id_eq id_v r then r ++ update_defaults (base c) (now s) ++ kwargs
                             else r) (view s (tablename (cname c)))),
              stored := (view s)(tablename (cname c) :=
                   map (\<lambda>r. if id_eq id_v r then r ++ update_defaults (base c) (now s) ++ kwargs
                             else r) (view s (tablename (cname c)))),
              objs := map settle (objs s)\<rparr>)"
  using assms
  by (simp add: update_unfold and_then_def
      session_execute_quiet [OF db_call_no_faults] run_update_query commit_quiet Let_def)

text \<open>
  C5, as amended. When the calls of the database go through (so that the commit
  inside \<open>update\<close> does not fail), nothing is pending, the
  table keeps its primary key, a row has the given id and the primary key is not among
  the fields written: \<open>update\<close> raises no error, and \<open>get\<close> by that id then returns
  the entity of that row with the fields written (and the \<^verbatim>\<open>onupdate\<close> defaults for
  the others), so that every field written reads as its value.
\<close>

theorem update_then_get_reads_value:
  assumes "faults s = []" and "Pending \<notin> life ` set (objs s)"
    and "pk_ok (view s (tablename (cname c)))"
    and "r \<in> set (view s (tablename (cname c)))" and "id_eq id_v r"
    and "kwargs ''id'' = None" and "kwargs field = Some v"
  shows "fst (update c id_v kwargs s) = Inr ()
         \<and> fst (get c (id_eq id_v) relationship (snd (update c id_v kwargs s))) =
             Inr (Some (Ent \<lparr>ecls = c, attrs = r ++ update_defaults (base c) (now s) ++ kwargs\<rparr>))
         \<and> (r ++ update_defaults (base c) (now s) ++ kwargs) field = Some v"
proof -
  let ?tn = "tablename (cname c)"
  let ?g = "\<lambda>r. if id_eq id_v r then r ++ update_defaults (base c) (now s) ++ kwargs else r"
  let ?s' = "snd (update c id_v kwargs s)"
  have ok: "pk_ok (map ?g (view s ?tn))"
    using assms(3) pk_ok_written [of kwargs id_v "base c" "now s", OF assms(6)] by simp
  note u = update_quiet [OF assms(1,2) ok]
  have f': "faults ?s' = []" using u assms(1) by simp
  have p': "Pending \<notin> life ` set (objs ?s')"
    using u settle_no_pending [OF assms(2)] by simp
  have v': "view ?s' ?tn = map ?g (view s ?tn)" using u by simp
  have "find (id_eq id_v) (view ?s' ?tn) =
          Some (r ++ update_defaults (base c) (now s) ++ kwargs)"
    unfolding v' find_written [of kwargs id_v "base c" "now s", OF assms(6)]
      find_row_of_id [OF assms(3,4,5)] by simp
  then have g: "fst (get c (id_eq id_v) relationship ?s') =
      Inr (Some (Ent \<lparr>ecls = c, attrs = r ++ update_defaults (base c) (now s) ++ kwargs\<rparr>))"
    using get_quiet [OF db_call_no_faults [OF f'] p', of c "id_eq id_v" relationship] by simp
  have w: "(r ++ update_defaults (base c) (now s) ++ kwargs) field = Some v"
    using assms(7) by (simp add: map_add_def)
  show ?thesis using u g w by simp
qed

text \<open>The witness: user 1 is renamed.\<close>

theorem update_then_get_reads_value_witness:
  "faults (demo []) = []
   \<and> Pending \<notin> life ` set (objs (demo []))
   \<and> pk_ok (view (demo []) (tablename (cname User)))
   \<and> ann \<in> set (view (demo []) (tablename (cname User)))
   \<and> id_eq (IntV 1) ann
   \<and> [''name'' \<mapsto> StrV ''amy''] ''id'' = None
   \<and> [''name'' \<mapsto> StrV ''amy''] ''name'' = Some (StrV ''amy'')
   \<and> fst (update User (IntV 1) [''name'' \<mapsto> StrV ''amy''] (demo [])) = Inr ()
   \<and> fst (get User (id_eq (IntV 1)) None
             (snd (update User (IntV 1) [''name'' \<mapsto> StrV ''amy''] (demo [])))) =
       Inr (Some (Ent \<lparr>ecls = User,
              attrs = ann ++ update_defaults (base User) (now (demo [])) ++ [''name'' \<mapsto> StrV ''amy'']\<rparr>))
   \<and> (ann ++ update_defaults (base User) (now (demo [])) ++ [''name'' \<mapsto> StrV ''amy'']) ''name''
       = Some (StrV ''amy'')"
proof -
  have h1: "faults (demo []) = []" by (simp add: demo_def)
  have h2: "Pending \<notin> life ` set (objs (demo []))" by (simp add: demo_def)
  have h3: "pk_ok (view (demo []) (tablename (cname User)))"
    by (simp add: demo_users pk_ok_demo_users)
  have h4: "ann \<in> set (view (demo []) (tablename (cname User)))"
    by (simp add: demo_users)
  have h5: "id_eq (IntV 1) ann" by (simp add: id_eq_def col_def ann_def)
  have h6: "[''name'' \<mapsto> StrV ''amy''] ''id'' = None" by simp
  have h7: "[''name'' \<mapsto> StrV ''amy''] ''name'' = Some (StrV ''amy'')" by simp
  note t = update_then_get_reads_value [OF h1 h2 h3 h4 h5 h6 h7, of None]
  show ?thesis using t h1 h2 h3 h4 h5 h6 h7 by blast
qed

text \<open>
  Where the claim fails. The field written is the primary key: \<open>update\<close> of user 1
  with \<open>id = 7\<close> returns, and \<open>get\<close> by id 1 then returns the none-value. The
  commit inside \<open>update\<close> raises: the exception is swallowed and the update rolled
  back, so \<open>update\<close> of the name of user 1 returns without an error and \<open>get\<close>
  still returns the old name. \<^verbatim>\<open>User(id=1)\<close> is pending while user 1 exists:
  \<open>update\<close> raises the \<^verbatim>\<open>IntegrityError\<close> of the flush.
\<close>

theorem update_then_get_counterexample:
  "fst (update User (IntV 1) [''id'' \<mapsto> IntV 7] (demo [])) = Inr ()
   \<and> fst (get User (id_eq (IntV 1)) None
             (snd (update User (IntV 1) [''id'' \<mapsto> IntV 7] (demo [])))) = Inr None
   \<and> fst (update User (IntV 1) [''name'' \<mapsto> StrV ''amy''] (demo [None, Some IntegrityError]))
       = Inr ()
   \<and> (case fst (get User (id_eq (IntV 1)) None
                  (snd (update User (IntV 1) [''name'' \<mapsto> StrV ''amy'']
                          (demo [None, Some IntegrityError])))) of
         Inr (Some (Ent e)) \<Rightarrow> col (attrs e) ''name'' = StrV ''ann''
       | _ \<Rightarrow> False)
   \<and> fst (update User (IntV 1) [''name'' \<mapsto> StrV ''amy''] (staged [''id'' \<mapsto> IntV 1] []))
       = Inl IntegrityError"
proof -
  have a: "fst (update User (IntV 1) [''id'' \<mapsto> IntV 7] (demo [])) = Inr ()"
    by code_simp
  have "case fst (get User (id_eq (IntV 1)) None
                (snd (update User (IntV 1) [''id'' \<mapsto> IntV 7] (demo [])))) of
          Inr None \<Rightarrow> True | _ \<Rightarrow> False"
    by code_simp
  then have b: "fst (get User (id_eq (IntV 1)) None
                (snd (update User (IntV 1) [''id'' \<mapsto> IntV 7] (demo [])))) = Inr None"
    by (auto split: sum.splits option.splits)
  have c: "fst (update User (IntV 1) [''name'' \<mapsto> StrV ''amy'']
                  (demo [None, Some IntegrityError])) = Inr ()"
    by code_simp
  have d: "case fst (get User (id_eq (IntV 1)) None
                  (snd (update User (IntV 1) [''name'' \<mapsto> StrV ''amy'']
                          (demo [None, Some IntegrityError])))) of
         Inr (Some (Ent e)) \<Rightarrow> col (attrs e) ''name'' = StrV ''ann''
       | _ \<Rightarrow> False"
    by code_simp
  have e: "fst (update User (IntV 1) [''name'' \<mapsto> StrV ''amy'']
                  (staged [''id'' \<mapsto> IntV 1] [])) = Inl IntegrityError"
    by code_simp
  show ?thesis using a b c d e by simp
qed

section \<open>\<^verbatim>\<open>create\<close>, then \<^verbatim>\<open>get\<close>\<close>

lemma flush_classes:
  "flush t obs tabs sq = (res, obs', tabs', sq') \<Longrightarrow>
     map (\<lambda>ob. ecls (ent ob)) obs' = map (\<lambda>ob. ecls (ent ob)) obs"
proof (induction obs arbitrary: tabs sq res obs' tabs' sq')
  case Nil
  then show ?case by simp
next
  case (Cons ob obs)
  show ?case
  proof (cases "life ob = Pending")
    case False
    obtain res1 obs1 tabs1 sq1 where r: "flush t obs tabs sq = (res1, obs1, tabs1, sq1)"
      by (cases "flush t obs tabs sq")
    from Cons.prems False r have "obs' = ob # obs1" by simp
    with Cons.IH [OF r] show ?thesis by simp
  next
    case True
    let ?tn = "tablename (cname (ecls (ent ob)))"
    let ?filled = "insert_defaults (base (ecls (ent ob))) t ++ attrs (ent ob)"
    let ?r = "fst (with_identity ?filled (sq ?tn))"
    let ?n = "snd (with_identity ?filled (sq ?tn))"
    show ?thesis
    proof (cases "pk_ok (tabs ?tn @ [?r])")
      case False
      with Cons.prems True have "obs' = ob # obs" by (simp add: Let_def)
      then show ?thesis by simp
    next
      case ok: True
      obtain res1 obs1 tabs1 sq1 where
        r: "flush t obs (tabs(?tn := tabs ?tn @ [?r])) (sq(?tn := ?n)) = (res1, obs1, tabs1, sq1)"
        by (cases "flush t obs (tabs(?tn := tabs ?tn @ [?r])) (sq(?tn := ?n))")
      from Cons.prems True ok r
      have "obs' = ob\<lparr>ent := (ent ob)\<lparr>attrs := ?r\<rparr>, life := Flushed\<rparr> # obs1"
        by (simp add: Let_def)
      with Cons.IH [OF r] show ?thesis by simp
    qed
  qed
qed

lemma flush_returns_none_pending:
  "flush t obs tabs sq = (Inr u, obs', tabs', sq') \<Longrightarrow> Pending \<notin> life ` set obs'"
proof (induction obs arbitrary: tabs sq obs' tabs' sq')
  case Nil
  then show ?case by simp
next
  case (Cons ob obs)
  show ?case
  proof (cases "life ob = Pending")
    case False
    obtain res1 obs1 tabs1 sq1 where r: "flush t obs tabs sq = (res1, obs1, tabs1, sq1)"
      by (cases "flush t obs tabs sq")
    from Cons.prems False r have "obs' = ob # obs1" "res1 = Inr u" by simp_all
    with Cons.IH [of tabs sq obs1 tabs1 sq1] r False show ?thesis by simp
  next
    case True
    let ?tn = "tablename (cname (ecls (ent ob)))"
    let ?filled = "insert_defaults (base (ecls (ent ob))) t ++ attrs (ent ob)"
    let ?r = "fst (with_identity ?filled (sq ?tn))"
    let ?n = "snd (with_identity ?filled (sq ?tn))"
    show ?thesis
    proof (cases "pk_ok (tabs ?tn @ [?r])")
      case False
      with Cons.prems True show ?thesis by (simp add: Let_def)
    next
      case ok: True
      obtain res1 obs1 tabs1 sq1 where
        r: "flush t obs (tabs(?tn := tabs ?tn @ [?r])) (sq(?tn := ?n)) = (res1, obs1, tabs1, sq1)"
        by (cases "flush t obs (tabs(?tn := tabs ?tn @ [?r])) (sq(?tn := ?n))")
      from Cons.prems True ok r
      have "obs' = ob\<lparr>ent := (ent ob)\<lparr>attrs := ?r\<rparr>, life := Flushed\<rparr> # obs1" "res1 = Inr u"
        by (simp_all add: Let_def)
      with Cons.IH [of _ _ obs1 tabs1 sq1] r show ?thesis by simp
    qed
  qed
qed

lemma session_flush_classes:
  "session_flush s = (res, s') \<Longrightarrow>
     map (\<lambda>ob. ecls (ent ob)) (objs s') = map (\<lambda>ob. ecls (ent ob)) (objs s)"
  by (auto simp: session_flush_def split: prod.splits dest: flush_classes)

lemma session_flush_returns_none_pending:
  "session_flush s = (Inr u, s') \<Longrightarrow> Pending \<notin> life ` set (objs s')"
  by (auto simp: session_flush_def split: prod.splits dest: flush_returns_none_pending)

lemma settle_classes:
  "map ((\<lambda>ob. ecls (ent ob)) \<circ> settle) obs = map (\<lambda>ob. ecls (ent ob)) obs"
  by (induction obs) simp_all

lemma expunge_classes:
  "map ((\<lambda>ob. ecls (ent ob)) \<circ> expunge) obs = map (\<lambda>ob. ecls (ent ob)) obs"
  by (induction obs) simp_all

lemma session_commit_classes:
  assumes "session_commit s = (res, s')"
  shows "map (\<lambda>ob. ecls (ent ob)) (objs s') = map (\<lambda>ob. ecls (ent ob)) (objs s)"
proof -
  obtain f s0 where c: "db_call s = (f, s0)" by (cases "db_call s")
  note fr = db_call_frame [OF c]
  show ?thesis
  proof (cases f)
    case (Some e)
    with assms c fr show ?thesis by (simp add: session_commit_def)
  next
    case None
    obtain r s2 where fl: "session_flush s0 = (r, s2)" by (cases "session_flush s0")
    note cl = session_flush_classes [OF fl]
    from assms c None fl cl fr show ?thesis
      by (cases r) (auto simp: session_commit_def settle_classes)
  qed
qed

lemma session_commit_returns_none_pending:
  assumes "session_commit s = (Inr u, s')"
  shows "Pending \<notin> life ` set (objs s')"
proof -
  obtain f s0 where c: "db_call s = (f, s0)" by (cases "db_call s")
  show ?thesis
  proof (cases f)
    case (Some e)
    with assms c show ?thesis by (simp add: session_commit_def)
  next
    case None
    obtain r s2 where fl: "session_flush s0 = (r, s2)" by (cases "session_flush s0")
    show ?thesis
    proof (cases r)
      case (Inl e)
      with assms c None fl show ?thesis by (simp add: session_commit_def)
    next
      case (Inr v)
      with fl have "Pending \<notin> life ` set (objs s2)"
        using session_flush_returns_none_pending by blast
      then have "Pending \<notin> life ` set (map settle (objs s2))"
        by (rule settle_no_pending)
      with assms c None fl Inr show ?thesis
        by (auto simp: session_commit_def)
    qed
  qed
qed

lemma session_rollback_classes:
  "session_rollback s = (res, s') \<Longrightarrow>
     map (\<lambda>ob. ecls (ent ob)) (objs s') = map (\<lambda>ob. ecls (ent ob)) (objs s)"
  by (auto simp: session_rollback_def db_call_def expunge_classes
      split: list.splits option.splits)

lemma commit_classes:
  assumes "commit s = (res, s')"
  shows "map (\<lambda>ob. ecls (ent ob)) (objs s') = map (\<lambda>ob. ecls (ent ob)) (objs s)"
proof -
  obtain r s1 where sc: "session_commit s = (r, s1)" by (cases "session_commit s")
  note c1 = session_commit_classes [OF sc]
  show ?thesis
  proof (cases r)
    case (Inr u)
    with assms sc c1 show ?thesis by (simp add: commit_def)
  next
    case (Inl e)
    show ?thesis
    proof (cases "is_Exception e")
      case False
      with assms sc Inl c1 show ?thesis by (simp add: commit_def)
    next
      case True
      with assms sc Inl have "session_rollback (print_exn e s1) = (res, s')"
        by (simp add: commit_def)
      from session_rollback_classes [OF this] c1 show ?thesis
        by (simp add: print_exn_def)
    qed
  qed
qed

lemma commit_returns_none_pending:
  assumes "commit s = (Inr u, s')"
  shows "Pending \<notin> life ` set (objs s')"
proof -
  obtain r s1 where sc: "session_commit s = (r, s1)" by (cases "session_commit s")
  show ?thesis
  proof (cases r)
    case (Inr v)
    with assms sc have "session_commit s = (Inr v, s')" by (simp add: commit_def)
    then show ?thesis by (rule session_commit_returns_none_pending)
  next
    case (Inl e)
    with assms sc have "session_rollback (print_exn e s1) = (Inr u, s')"
      by (cases "is_Exception e") (simp_all add: commit_def)
    from session_rollback_returns [OF this] show ?thesis by simp
  qed
qed

lemma session_refresh_returns:
  assumes "session_refresh object s = (Inr u, s')"
  shows "object < length (objs s)
         \<and> view s' = view s
         \<and> map life (objs s') = map life (objs s)
         \<and> (\<exists>r. find (\<lambda>r. col r ''id'' = col (attrs (ent (objs s ! object))) ''id'')
                    (view s (tablename (cname (ecls (ent (objs s ! object)))))) = Some r
                \<and> ent (objs s' ! object) = (ent (objs s ! object))\<lparr>attrs := r\<rparr>)"
proof -
  have ok: "object < length (objs s)"
    using assms by (auto simp: session_refresh_def split: if_splits)
  obtain f s1 where c: "db_call s = (f, s1)" by (cases "db_call s")
  note fr = db_call_frame [OF c]
  let ?ob = "objs s ! object"
  let ?rows = "view s (tablename (cname (ecls (ent ?ob))))"
  let ?P = "\<lambda>r. col r ''id'' = col (attrs (ent ?ob)) ''id''"
  from assms c fr obtain r where
    found: "find ?P ?rows = Some r" and
    s': "s' = s1\<lparr>objs := (objs s)[object := ?ob\<lparr>ent := (ent ?ob)\<lparr>attrs := r\<rparr>\<rparr>]\<rparr>"
    by (cases f; cases "find ?P ?rows")
      (auto simp: session_refresh_def Let_def split: if_splits)
  have "map life (objs s') = map life (objs s)"
    using s' ok by (simp add: map_update list_update_same_conv)
  with ok found s' fr show ?thesis by simp
qed

text \<open>
  C3. Whenever \<open>create\<close> returns an entity, and the call of the database that \<open>get\<close>
  makes goes through, \<open>get\<close> with the criteria that the id equals the id of the entity
  returned gives that entity: the same class and the same value in every column.
\<close>

theorem create_then_get_returns_created:
  assumes "create c kwargs s = (Inr e, s1)" and "fst (db_call s1) = None"
  shows "fst (get c (id_eq (col (attrs e) ''id'')) relationship s1) = Inr (Some (Ent e))"
proof -
  let ?o = "length (objs s)"
  let ?new = "\<lparr>ent = \<lparr>ecls = c, attrs = kwargs\<rparr>, life = Transient\<rparr>"
  let ?s2 = "session_add ?o (s\<lparr>objs := objs s @ [?new]\<rparr>)"
  have cls2: "map (\<lambda>ob. ecls (ent ob)) (objs ?s2) = map (\<lambda>ob. ecls (ent ob)) (objs s) @ [c]"
    by (simp add: session_add_def)
  from assms(1) have run: "and_then commit
      (\<lambda>u. and_then (refresh ?o) (\<lambda>v s4. (Inr (ent (objs s4 ! ?o)), s4))) ?s2 = (Inr e, s1)"
    by (simp add: create_def construct_def)
  obtain r3 s3 where cm: "commit ?s2 = (r3, s3)" by (cases "commit ?s2")
  from run cm have r3: "r3 = Inr ()"
    by (cases r3) (simp_all add: and_then_def)
  from run cm r3 have run2: "and_then (refresh ?o) (\<lambda>v s4. (Inr (ent (objs s4 ! ?o)), s4)) s3
      = (Inr e, s1)"
    by (simp add: and_then_def)
  obtain r4 s4 where rf: "session_refresh ?o s3 = (r4, s4)" by (cases "session_refresh ?o s3")
  from run2 rf have r4: "r4 = Inr ()" and e: "e = ent (objs s4 ! ?o)" and s1: "s1 = s4"
    by (cases r4; simp add: and_then_def refresh_def)+
  from cm r3 have np3: "Pending \<notin> life ` set (objs s3)"
    using commit_returns_none_pending by blast
  from cm have cls3: "map (\<lambda>ob. ecls (ent ob)) (objs s3) = map (\<lambda>ob. ecls (ent ob)) (objs s) @ [c]"
    using commit_classes cls2 by metis
  note rr = session_refresh_returns [OF rf [unfolded r4]]
  from rr have lt: "?o < length (objs s3)" by simp
  have "map (\<lambda>ob. ecls (ent ob)) (objs s3) ! ?o = c"
    unfolding cls3 by (simp add: nth_append)
  with lt have c3: "ecls (ent (objs s3 ! ?o)) = c" by simp
  from rr c3 obtain r where
    found: "find (\<lambda>r. col r ''id'' = col (attrs (ent (objs s3 ! ?o))) ''id'')
              (view s3 (tablename (cname c))) = Some r"
    and e4: "ent (objs s4 ! ?o) = (ent (objs s3 ! ?o))\<lparr>attrs := r\<rparr>"
    by auto
  from found have idr: "col r ''id'' = col (attrs (ent (objs s3 ! ?o))) ''id''"
    by (auto simp: find_Some_iff)
  have ee: "e = \<lparr>ecls = c, attrs = r\<rparr>"
    using e e4 c3 by (cases "ent (objs s3 ! ?o)") simp
  have crit: "id_eq (col (attrs e) ''id'') =
                (\<lambda>r. col r ''id'' = col (attrs (ent (objs s3 ! ?o))) ''id'')"
    using ee idr by (simp add: id_eq_def fun_eq_iff)
  have np4: "Pending \<notin> life ` set (objs s4)"
  proof -
    from rr have "map life (objs s4) = map life (objs s3)" by simp
    then have "life ` set (objs s4) = life ` set (objs s3)"
      by (metis set_map)
    with np3 show ?thesis by simp
  qed
  have v4: "view s4 = view s3" using rr by simp
  from assms(2) s1 have dc: "db_call s4 = (None, snd (db_call s4))"
    by (metis prod.collapse)
  from get_quiet [OF dc np4, of c "id_eq (col (attrs e) ''id'')" relationship]
  show ?thesis
    unfolding s1 crit v4 found using ee by simp
qed

text \<open>
  The witness: a third user is created without an id; the sequence gives id 3, and
  \<open>get\<close> by id 3 returns the entity that \<open>create\<close> returned.
\<close>

lemma demo_create_returns:
  "case fst (create User [''name'' \<mapsto> StrV ''cy''] (demo [])) of
     Inr e \<Rightarrow> col (attrs e) ''id'' = IntV 3 \<and> col (attrs e) ''name'' = StrV ''cy''
   | Inl x \<Rightarrow> False"
  by code_simp

lemma demo_create_leaves_quiet:
  "fst (db_call (snd (create User [''name'' \<mapsto> StrV ''cy''] (demo [])))) = None"
  by code_simp

theorem create_then_get_returns_created_witness:
  "\<exists>e. create User [''name'' \<mapsto> StrV ''cy''] (demo []) =
         (Inr e, snd (create User [''name'' \<mapsto> StrV ''cy''] (demo [])))
     \<and> col (attrs e) ''id'' = IntV 3
     \<and> col (attrs e) ''name'' = StrV ''cy''
     \<and> fst (db_call (snd (create User [''name'' \<mapsto> StrV ''cy''] (demo [])))) = None
     \<and> fst (get User (id_eq (IntV 3)) None
               (snd (create User [''name'' \<mapsto> StrV ''cy''] (demo [])))) = Inr (Some (Ent e))"
proof -
  let ?s = "create User [''name'' \<mapsto> StrV ''cy''] (demo [])"
  from demo_create_returns obtain e where
    r: "fst ?s = Inr e" and i: "col (attrs e) ''id'' = IntV 3"
    and n: "col (attrs e) ''name'' = StrV ''cy''"
    by (cases "fst ?s") auto
  from r have c: "?s = (Inr e, snd ?s)" by (metis prod.collapse)
  from create_then_get_returns_created [OF c demo_create_leaves_quiet, of None] i
  have "fst (get User (id_eq (IntV 3)) None (snd ?s)) = Inr (Some (Ent e))" by simp
  with c i n demo_create_leaves_quiet show ?thesis by blast
qed

text \<open>
  When the commit inside \<open>create\<close> fails, the object is expunged by the rollback and
  the refresh that follows raises: \<^verbatim>\<open>User(id=1)\<close> while user 1 exists is not created,
  the \<^verbatim>\<open>IntegrityError\<close> is printed, and the caller of \<open>create\<close> gets
  \<^verbatim>\<open>InvalidRequestError\<close>.
\<close>

lemma create_duplicate_raises_on_refresh:
  "(case fst (create User [''id'' \<mapsto> IntV 1] (demo [])) of
      Inl x \<Rightarrow> x = InvalidRequestError | Inr e \<Rightarrow> False)
   \<and> printed (snd (create User [''id'' \<mapsto> IntV 1] (demo []))) = [IntegrityError]
   \<and> length (stored (snd (create User [''id'' \<mapsto> IntV 1] (demo []))) ''users'') = 2"
  by code_simp

end
